theory Spec2Isabelle
  imports Main "HOL-Library.AList" "HOL-Library.Sublist"
begin

section \<open>The CMake configuration tool (cmake\_config\_tool/app.py)\<close>

text \<open>
  A shallow embedding of \<^verbatim>\<open>app.py\<close>: the option scanner, the settings store, the build
  directory manager, the command runner and the five HTTP handlers.

  Python values that travel through JSON and YAML are values of \<open>json\<close>; a Python
  \<^verbatim>\<open>dict\<close> is an association list in insertion order. A Python \<^verbatim>\<open>str\<close> is a \<open>string\<close>
  whose characters are read as the code points 0 to 255; the content of a file is a
  \<open>string\<close> whose characters are read as bytes. Numbers are integers. An exception is a
  value of \<open>exn\<close>, and every function that can raise returns a sum with the exception on
  the left.
\<close>

subsection \<open>Python values and exceptions\<close>

datatype json =
    JNull
  | JBool bool
  | JNum int
  | JStr string
  | JArr "json list"
  | JObj "(string \<times> json) list"

datatype exn_kind =
    FileNotFoundError
  | FileExistsError
  | NotADirectoryError
  | IsADirectoryError
  | PermissionError
  | KeyError
  | TypeError
  | AttributeError
  | UnicodeDecodeError
  | UnicodeEncodeError
  | YAMLError

datatype exn = Raise exn_kind string

text \<open>\<^verbatim>\<open>str(e)\<close>\<close>

fun str_exn :: "exn \<Rightarrow> string" where
  "str_exn (Raise k msg) = msg"

text \<open>The truth value of a Python object, as \<^verbatim>\<open>if x:\<close> and \<^verbatim>\<open>x and a or b\<close> read it.\<close>

fun truthy :: "json \<Rightarrow> bool" where
  "truthy JNull = False"
| "truthy (JBool b) = b"
| "truthy (JNum n) = (n \<noteq> 0)"
| "truthy (JStr s) = (s \<noteq> [])"
| "truthy (JArr xs) = (xs \<noteq> [])"
| "truthy (JObj kvs) = (kvs \<noteq> [])"

text \<open>\<^verbatim>\<open>key in x\<close> for a \<^verbatim>\<open>str\<close> key.\<close>

fun py_contains :: "json \<Rightarrow> string \<Rightarrow> exn + bool" where
  "py_contains (JObj kvs) key = Inr (key \<in> set (map fst kvs))"
| "py_contains (JArr xs) key = Inr (JStr key \<in> set xs)"
| "py_contains (JStr s) key = Inr (sublist key s)"
| "py_contains _ key = Inl (Raise TypeError ''argument is not iterable'')"

text \<open>\<^verbatim>\<open>x[key]\<close> for a \<^verbatim>\<open>str\<close> key.\<close>

fun py_getitem :: "json \<Rightarrow> string \<Rightarrow> exn + json" where
  "py_getitem (JObj kvs) key =
     (case map_of kvs key of
        None \<Rightarrow> Inl (Raise KeyError ([CHR 0x27] @ key @ [CHR 0x27]))
      | Some v \<Rightarrow> Inr v)"
| "py_getitem (JArr xs) key = Inl (Raise TypeError ''list indices must be integers or slices, not str'')"
| "py_getitem (JStr s) key = Inl (Raise TypeError ''string indices must be integers, not str'')"
| "py_getitem _ key = Inl (Raise TypeError ''object is not subscriptable'')"

text \<open>\<^verbatim>\<open>x[key] = v\<close> for a \<^verbatim>\<open>str\<close> key: a dict keeps the position of a key it has already.\<close>

fun py_setitem :: "json \<Rightarrow> string \<Rightarrow> json \<Rightarrow> exn + json" where
  "py_setitem (JObj kvs) key v = Inr (JObj (AList.update key v kvs))"
| "py_setitem (JArr xs) key v = Inl (Raise TypeError ''list indices must be integers or slices, not str'')"
| "py_setitem _ key v = Inl (Raise TypeError ''object does not support item assignment'')"

text \<open>\<^verbatim>\<open>x.items()\<close>\<close>

fun py_items :: "json \<Rightarrow> exn + (string \<times> json) list" where
  "py_items (JObj kvs) = Inr kvs"
| "py_items _ = Inl (Raise AttributeError ''object has no attribute 'items' '')"

subsection \<open>The option scanner\<close>

text \<open>
  The pattern of \<^verbatim>\<open>read_cmake_options\<close> is
  \<^verbatim>\<open>option\((\w+)\s+"([^"]+)"\s+(\w+)\)\<close>.
  The classes \<^verbatim>\<open>\w\<close> and \<^verbatim>\<open>\s\<close> are those of a \<^verbatim>\<open>str\<close> pattern, on the code points
  0 to 255.
\<close>

definition is_word :: "char \<Rightarrow> bool" where
  "is_word c =
     (let n = (of_char c :: nat) in
        (48 \<le> n \<and> n \<le> 57) \<or> (65 \<le> n \<and> n \<le> 90) \<or> n = 95 \<or> (97 \<le> n \<and> n \<le> 122)
      \<or> n = 170 \<or> n = 178 \<or> n = 179 \<or> n = 181 \<or> n = 185 \<or> n = 186
      \<or> (188 \<le> n \<and> n \<le> 190) \<or> (192 \<le> n \<and> n \<le> 214) \<or> (216 \<le> n \<and> n \<le> 246)
      \<or> 248 \<le> n)"

definition is_space :: "char \<Rightarrow> bool" where
  "is_space c =
     (let n = (of_char c :: nat) in
        (9 \<le> n \<and> n \<le> 13) \<or> (28 \<le> n \<and> n \<le> 32) \<or> n = 133 \<or> n = 160)"

definition is_quote :: "char \<Rightarrow> bool" where
  "is_quote c = (c = CHR 0x22)"

text \<open>A literal of the pattern: the text must start with it.\<close>

fun literal :: "string \<Rightarrow> string \<Rightarrow> string option" where
  "literal [] s = Some s"
| "literal (c # cs) [] = None"
| "literal (c # cs) (d # ds) = (if c = d then literal cs ds else None)"

text \<open>
  One attempt of the pattern at the start of a text. Every repetition of the pattern is
  followed by a character outside its class, so the greedy repetition takes the longest
  run and no shorter run can match: the attempt is a single pass. The result is the three
  groups and the text after the match.
\<close>

definition match_option :: "string \<Rightarrow> ((string \<times> string \<times> string) \<times> string) option" where
  "match_option s =
     (case literal ''option('' s of
        None \<Rightarrow> None
      | Some s1 \<Rightarrow>
          let name = takeWhile is_word s1; s2 = dropWhile is_word s1 in
          if name = [] \<or> takeWhile is_space s2 = [] then None
          else
            (case literal [CHR 0x22] (dropWhile is_space s2) of
               None \<Rightarrow> None
             | Some s3 \<Rightarrow>
                 let description = takeWhile (\<lambda>c. \<not> is_quote c) s3;
                     s4 = dropWhile (\<lambda>c. \<not> is_quote c) s3 in
                 if description = [] then None
                 else
                   (case literal [CHR 0x22] s4 of
                      None \<Rightarrow> None
                    | Some s5 \<Rightarrow>
                        let s6 = dropWhile is_space s5;
                            token = takeWhile is_word s6 in
                        if takeWhile is_space s5 = [] \<or> token = [] then None
                        else
                          (case literal '')'' (dropWhile is_word s6) of
                             None \<Rightarrow> None
                           | Some rest \<Rightarrow> Some ((name, description, token), rest)))))"

lemma literal_length: "literal p s = Some r \<Longrightarrow> length r + length p = length s"
  by (induction p s rule: literal.induct) (auto split: if_splits)

lemma length_dropWhile_le': "length (dropWhile P xs) \<le> length xs"
  by (induction xs) auto

lemma match_option_shorter:
  assumes "match_option s = Some (m, rest)"
  shows "length rest < length s"
proof -
  from assms obtain s1 s3 s5 where
    l1: "literal ''option('' s = Some s1" and
    l3: "literal [CHR 0x22] (dropWhile is_space (dropWhile is_word s1)) = Some s3" and
    l5: "literal [CHR 0x22] (dropWhile (\<lambda>c. \<not> is_quote c) s3) = Some s5" and
    l7: "literal '')'' (dropWhile is_word (dropWhile is_space s5)) = Some rest"
    by (auto simp: match_option_def Let_def split: option.splits if_splits)
  have "length rest < length (dropWhile is_word (dropWhile is_space s5))"
    using literal_length [OF l7] by simp
  also have "\<dots> \<le> length s5"
    by (meson length_dropWhile_le' le_trans)
  also have "\<dots> \<le> length (dropWhile (\<lambda>c. \<not> is_quote c) s3)"
    using literal_length [OF l5] by simp
  also have "\<dots> \<le> length s3"
    by (rule length_dropWhile_le')
  also have "\<dots> \<le> length (dropWhile is_space (dropWhile is_word s1))"
    using literal_length [OF l3] by simp
  also have "\<dots> \<le> length s1"
    by (meson length_dropWhile_le' le_trans)
  also have "\<dots> \<le> length s"
    using literal_length [OF l1] by simp
  finally show ?thesis .
qed

text \<open>
  \<^verbatim>\<open>re.finditer\<close>: the matches from left to right, without overlap. After a match the
  search goes on where the match ended; where the attempt fails it moves one character on.
\<close>

function finditer :: "string \<Rightarrow> (string \<times> string \<times> string) list" where
  "finditer [] = []"
| "finditer (c # cs) =
     (case match_option (c # cs) of
        Some (m, rest) \<Rightarrow> m # finditer rest
      | None \<Rightarrow> finditer cs)"
  by pat_completeness auto
termination
proof (relation "measure length")
  show "wf (measure length)" by simp
next
  fix c cs x2 and m :: "string \<times> string \<times> string" and rest
  assume "match_option (c # cs) = Some x2" "(m, rest) = x2"
  then show "(rest, c # cs) \<in> measure length"
    using match_option_shorter [of "c # cs" m rest] by simp
next
  fix c cs
  show "(cs, c # cs) \<in> measure length" by simp
qed

text \<open>The value stored for one match: \<^verbatim>\<open>{'description': description, 'value': default_value}\<close>.\<close>

definition option_entry :: "string \<Rightarrow> bool \<Rightarrow> json" where
  "option_entry description default_value =
     JObj [(''description'', JStr description), (''value'', JBool default_value)]"

text \<open>
  The loop over the matches: \<^verbatim>\<open>options[option_name] = {...}\<close>. \<open>AList.update\<close> is the
  assignment of a \<^verbatim>\<open>dict\<close>: a key already present keeps its place, a new key goes last.
\<close>

fun collect_options ::
  "(string \<times> string \<times> string) list \<Rightarrow> (string \<times> json) list \<Rightarrow> (string \<times> json) list" where
  "collect_options [] options = options"
| "collect_options ((option_name, description, token) # matches) options =
     collect_options matches
       (AList.update option_name (option_entry description (token = ''ON'')) options)"

text \<open>The scanner on the text of the configuration file.\<close>

definition scan_options :: "string \<Rightarrow> (string \<times> json) list" where
  "scan_options content = collect_options (finditer content) []"

subsection \<open>Declarations as the specification describes them\<close>

text \<open>
  A declaration in the words of the specification: the keyword, an identifier token, a
  quoted description string and a bare final token. It is well formed when the identifier
  and the final token are one or more word characters, the description is not empty and
  holds no double quote, and one or more white-space characters stand between the
  identifier and the opening quote and between the closing quote and the final token.
  Word and white-space characters are the classes \<^verbatim>\<open>\w\<close> and \<^verbatim>\<open>\s\<close>; nothing else here
  refers to the scanner.
\<close>

record decl =
  d_name :: string
  d_gap1 :: string
  d_description :: string
  d_gap2 :: string
  d_token :: string

definition well_formed :: "decl \<Rightarrow> bool" where
  "well_formed d \<longleftrightarrow>
     d_name d \<noteq> [] \<and> list_all is_word (d_name d) \<and>
     d_gap1 d \<noteq> [] \<and> list_all is_space (d_gap1 d) \<and>
     d_description d \<noteq> [] \<and> list_all (\<lambda>c. c \<noteq> CHR 0x22) (d_description d) \<and>
     d_gap2 d \<noteq> [] \<and> list_all is_space (d_gap2 d) \<and>
     d_token d \<noteq> [] \<and> list_all is_word (d_token d)"

definition render_declaration :: "decl \<Rightarrow> string" where
  "render_declaration d =
     ''option('' @ d_name d @ d_gap1 d @ [CHR 0x22] @ d_description d @ [CHR 0x22]
       @ d_gap2 d @ d_token d @ '')''"

text \<open>A text begins with a well-formed declaration.\<close>

definition begins_declaration :: "string \<Rightarrow> bool" where
  "begins_declaration s \<longleftrightarrow> (\<exists>d rest. well_formed d \<and> s = render_declaration d @ rest)"

text \<open>
  A configuration text is a sequence of well-formed declarations and of other text.
  Other text is anything in which no well-formed declaration begins, read together with
  what follows it: malformed declarations, comments, other commands.
\<close>

datatype piece = Declaration decl | Other string

fun render :: "piece list \<Rightarrow> string" where
  "render [] = []"
| "render (Declaration d # ps) = render_declaration d @ render ps"
| "render (Other g # ps) = g @ render ps"

fun declarations :: "piece list \<Rightarrow> decl list" where
  "declarations [] = []"
| "declarations (Declaration d # ps) = d # declarations ps"
| "declarations (Other g # ps) = declarations ps"

fun free_of_declarations :: "string \<Rightarrow> string \<Rightarrow> bool" where
  "free_of_declarations [] rest = True"
| "free_of_declarations (c # cs) rest =
     (\<not> begins_declaration (c # cs @ rest) \<and> free_of_declarations cs rest)"

fun well_formed_text :: "piece list \<Rightarrow> bool" where
  "well_formed_text [] = True"
| "well_formed_text (Declaration d # ps) = (well_formed d \<and> well_formed_text ps)"
| "well_formed_text (Other g # ps) = (free_of_declarations g (render ps) \<and> well_formed_text ps)"

text \<open>
  The entry the specification expects for a declaration: its identifier, with its exact
  description and a default that is true iff its final token is exactly \<^verbatim>\<open>ON\<close>.
\<close>

definition expected_entry :: "decl \<Rightarrow> string \<times> json" where
  "expected_entry d =
     (d_name d,
      JObj [(''description'', JStr (d_description d)), (''value'', JBool (d_token d = ''ON''))])"

text \<open>The identifiers of a list in the order of their first occurrence.\<close>

fun first_occurrences :: "'a list \<Rightarrow> 'a list" where
  "first_occurrences [] = []"
| "first_occurrences (x # xs) = x # filter (\<lambda>y. y \<noteq> x) (first_occurrences xs)"

subsection \<open>The machine: file tree, environment, external programs\<close>

text \<open>
  A path is the list of its components. The file tree lists every directory and file
  with its path; a file holds bytes. \<open>locked\<close> holds the entries that the operating system
  refuses to remove (a file held open, a missing permission).
\<close>

type_synonym path = "string list"

datatype node = Dir | File string

record world =
  environ_TEMP :: "path option"
  home :: path
  module_file :: path
  tree :: "(path \<times> node) list"
  locked :: "path list"

text \<open>
  A child process that was started, as the program sees it through the text stream of
  its standard output (standard error merged in): the lines read from the stream, the
  exception that ended the reading when the output could not be decoded, the exit status,
  and the file tree the process left.
\<close>

record process =
  stdout_lines :: "string list"
  stdout_error :: "exn option"
  returncode :: int
  tree_after :: "(path \<times> node) list"

text \<open>
  What the program calls outside the repository. The codec of the locale, with which a
  file opened in text mode is decoded and encoded: decoding raises on bytes that are no
  text; encoding raises on a character the codec has not, after the bytes of the text
  before it were written. The line separator of the platform. PyYAML. The launch of a
  child process (\<^verbatim>\<open>subprocess.Popen\<close> with a command and a working directory), which raises
  when the process cannot be started.
\<close>

record host =
  text_decode :: "string \<Rightarrow> exn + string"
  text_encode :: "string \<Rightarrow> (exn \<times> string) + string"
  linesep :: string
  yaml_dump :: "json \<Rightarrow> string"
  yaml_safe_load :: "string \<Rightarrow> exn + json"
  popen :: "string list \<Rightarrow> path \<Rightarrow> (path \<times> node) list \<Rightarrow> exn + process"

fun path_string :: "path \<Rightarrow> string" where
  "path_string [] = []"
| "path_string [c] = c"
| "path_string (c # cs) = c @ ''/'' @ path_string cs"

text \<open>
  The exception of a failed system call on a path, with the message that \<^verbatim>\<open>str(e)\<close> gives
  for it.
\<close>

fun strerror :: "exn_kind \<Rightarrow> string" where
  "strerror FileNotFoundError = ''[Errno 2] No such file or directory''"
| "strerror PermissionError = ''[Errno 13] Permission denied''"
| "strerror FileExistsError = ''[Errno 17] File exists''"
| "strerror NotADirectoryError = ''[Errno 20] Not a directory''"
| "strerror IsADirectoryError = ''[Errno 21] Is a directory''"
| "strerror _ = []"

definition os_error :: "exn_kind \<Rightarrow> path \<Rightarrow> exn" where
  "os_error kind p = Raise kind (strerror kind @ '': '' @ [CHR 0x27] @ path_string p @ [CHR 0x27])"

definition os_path_dirname :: "path \<Rightarrow> path" where
  "os_path_dirname p = butlast p"

definition os_path_join :: "path \<Rightarrow> string \<Rightarrow> path" where
  "os_path_join p name = p @ [name]"

definition os_path_exists :: "path \<Rightarrow> world \<Rightarrow> bool" where
  "os_path_exists p w = (map_of (tree w) p \<noteq> None)"

text \<open>\<^verbatim>\<open>os.listdir(p) == []\<close>, for a directory: no entry of the tree lies below it.\<close>

definition is_empty_dir :: "path \<Rightarrow> world \<Rightarrow> bool" where
  "is_empty_dir p w =
     (map_of (tree w) p = Some Dir \<and> list_all (\<lambda>(q, n). \<not> strict_prefix p q) (tree w))"

text \<open>
  \<^verbatim>\<open>os.makedirs(p, exist_ok=...)\<close>: creates the directory and the missing directories
  above it. It raises when the path is there already (unless it is a directory and
  \<^verbatim>\<open>exist_ok\<close> is set) and when a path above it is a file.
\<close>

definition os_makedirs :: "path \<Rightarrow> bool \<Rightarrow> world \<Rightarrow> exn + world" where
  "os_makedirs p exist_ok w =
     (case map_of (tree w) p of
        Some Dir \<Rightarrow>
          if exist_ok then Inr w else Inl (os_error FileExistsError p)
      | Some (File c) \<Rightarrow> Inl (os_error FileExistsError p)
      | None \<Rightarrow>
          if list_ex (\<lambda>q. case map_of (tree w) q of Some (File c) \<Rightarrow> True | _ \<Rightarrow> False)
               (prefixes p)
          then Inl (os_error NotADirectoryError p)
          else Inr (w\<lparr>tree := tree w
                      @ map (\<lambda>q. (q, Dir)) (filter (\<lambda>q. map_of (tree w) q = None) (prefixes p))\<rparr>))"

text \<open>
  \<^verbatim>\<open>shutil.rmtree(p)\<close>: removes the directory and everything below it, and raises when an
  entry cannot be removed. What a failed removal has deleted before it stopped depends on
  the order in which the operating system lists a directory; the model keeps the tree in
  that case, and no property below reads the tree after a failed removal.
\<close>

definition shutil_rmtree :: "path \<Rightarrow> world \<Rightarrow> exn + world" where
  "shutil_rmtree p w =
     (case map_of (tree w) p of
        None \<Rightarrow> Inl (os_error FileNotFoundError p)
      | Some (File c) \<Rightarrow> Inl (os_error NotADirectoryError p)
      | Some Dir \<Rightarrow>
          (case filter (\<lambda>q. prefix p q \<and> q \<in> set (locked w)) (map fst (tree w)) of
             q # qs \<Rightarrow> Inl (os_error PermissionError q)
           | [] \<Rightarrow> Inr (w\<lparr>tree := filter (\<lambda>(q, n). \<not> prefix p q) (tree w)\<rparr>)))"

text \<open>
  Reading a text stream translates every line ending, \<^verbatim>\<open>\r\n\<close> and \<^verbatim>\<open>\r\<close> too, to \<^verbatim>\<open>\n\<close>
  (universal newlines); writing one translates \<^verbatim>\<open>\n\<close> to the line separator of the platform.
\<close>

fun universal_newlines :: "string \<Rightarrow> string" where
  "universal_newlines [] = []"
| "universal_newlines [c] = [if c = CHR 0x0D then CHR 0x0A else c]"
| "universal_newlines (c # d # cs) =
     (if c = CHR 0x0D
      then CHR 0x0A # (if d = CHR 0x0A then universal_newlines cs else universal_newlines (d # cs))
      else c # universal_newlines (d # cs))"

definition write_newlines :: "string \<Rightarrow> string \<Rightarrow> string" where
  "write_newlines sep s = concat (map (\<lambda>c. if c = CHR 0x0A then sep else [c]) s)"

text \<open>\<^verbatim>\<open>open(p, 'r')\<close> followed by \<^verbatim>\<open>read()\<close>: the text of the file.\<close>

definition read_file :: "host \<Rightarrow> path \<Rightarrow> world \<Rightarrow> exn + string" where
  "read_file h p w =
     (case map_of (tree w) p of
        None \<Rightarrow> Inl (os_error FileNotFoundError p)
      | Some Dir \<Rightarrow> Inl (os_error IsADirectoryError p)
      | Some (File bytes) \<Rightarrow>
          (case text_decode h bytes of
             Inl e \<Rightarrow> Inl e
           | Inr s \<Rightarrow> Inr (universal_newlines s)))"

text \<open>
  \<^verbatim>\<open>open(p, 'w')\<close> followed by the writing of a text. Opening creates the file or empties
  it, and raises without a change when it cannot; a text that cannot be encoded leaves
  in the file what was written before the exception.
\<close>

definition write_file :: "host \<Rightarrow> path \<Rightarrow> string \<Rightarrow> world \<Rightarrow> exn option \<times> world" where
  "write_file h p s w =
     (case map_of (tree w) p of
        Some Dir \<Rightarrow> (Some (os_error IsADirectoryError p), w)
      | _ \<Rightarrow>
          (case map_of (tree w) (os_path_dirname p) of
             None \<Rightarrow> (Some (os_error FileNotFoundError p), w)
           | Some (File c) \<Rightarrow> (Some (os_error NotADirectoryError p), w)
           | Some Dir \<Rightarrow>
               (case text_encode h (write_newlines (linesep h) s) of
                  Inl (e, written) \<Rightarrow>
                    (Some e, w\<lparr>tree := AList.update p (File written) (tree w)\<rparr>)
                | Inr bytes \<Rightarrow>
                    (None, w\<lparr>tree := AList.update p (File bytes) (tree w)\<rparr>))))"

subsection \<open>Paths of the program\<close>

definition get_project_root :: "world \<Rightarrow> path" where
  "get_project_root w = os_path_dirname (os_path_dirname (module_file w))"

text \<open>\<^verbatim>\<open>os.path.join(os.environ.get('TEMP', os.path.expanduser('~')), 'aimrt_build')\<close>\<close>

definition build_dir_path :: "world \<Rightarrow> path" where
  "build_dir_path w =
     os_path_join (case environ_TEMP w of Some t \<Rightarrow> t | None \<Rightarrow> home w) ''aimrt_build''"

definition get_build_dir :: "world \<Rightarrow> exn + (path \<times> world)" where
  "get_build_dir w =
     (let build_dir = build_dir_path w in
      case os_makedirs build_dir True w of
        Inl e \<Rightarrow> Inl e
      | Inr w' \<Rightarrow> Inr (build_dir, w'))"

definition cmake_path :: "world \<Rightarrow> path" where
  "cmake_path w = os_path_join (get_project_root w) ''CMakeLists.txt''"

definition config_path :: "world \<Rightarrow> path" where
  "config_path w = os_path_join (os_path_dirname (module_file w)) ''cmake_config.yaml''"

subsection \<open>Scanner and settings store on the file tree\<close>

definition read_cmake_options :: "host \<Rightarrow> world \<Rightarrow> exn + (string \<times> json) list" where
  "read_cmake_options h w =
     (case read_file h (cmake_path w) w of
        Inl e \<Rightarrow> Inl e
      | Inr content \<Rightarrow> Inr (scan_options content))"

definition save_cmake_options :: "host \<Rightarrow> json \<Rightarrow> world \<Rightarrow> exn option \<times> world" where
  "save_cmake_options h options w = write_file h (config_path w) (yaml_dump h options) w"

text \<open>\<^verbatim>\<open>None\<close> is \<open>JNull\<close>.\<close>

definition load_saved_options :: "host \<Rightarrow> world \<Rightarrow> exn + json" where
  "load_saved_options h w =
     (if os_path_exists (config_path w) w
      then (case read_file h (config_path w) w of
              Inl e \<Rightarrow> Inl e
            | Inr content \<Rightarrow> yaml_safe_load h content)
      else Inr JNull)"

subsection \<open>The handlers\<close>

text \<open>
  A handler returns a response or raises, and leaves a world. A streamed response is the
  list of the chunks the generator yielded, with the exception that ended the iteration
  when it raised.
\<close>

datatype response =
    Jsonify "(string \<times> json) list"
  | Render_template string "(string \<times> json) list"
  | Stream "string list" "exn option"

text \<open>
  The loop of \<^verbatim>\<open>index\<close> over the keys of \<^verbatim>\<open>options\<close>:
  \<^verbatim>\<open>if key in saved_options: options[key]['value'] = saved_options[key]['value']\<close>.
  The keys of a \<^verbatim>\<open>dict\<close> are distinct, so \<^verbatim>\<open>options[key]\<close> is the entry the loop stands at.
\<close>

fun merge_saved :: "json \<Rightarrow> (string \<times> json) list \<Rightarrow> exn + (string \<times> json) list" where
  "merge_saved saved_options [] = Inr []"
| "merge_saved saved_options ((key, entry) # options) =
     (case py_contains saved_options key of
        Inl e \<Rightarrow> Inl e
      | Inr present \<Rightarrow>
          (case (if present
                 then (case py_getitem saved_options key of
                         Inl e \<Rightarrow> Inl e
                       | Inr saved \<Rightarrow>
                           (case py_getitem saved ''value'' of
                              Inl e \<Rightarrow> Inl e
                            | Inr v \<Rightarrow> py_setitem entry ''value'' v))
                 else Inr entry) of
             Inl e \<Rightarrow> Inl e
           | Inr entry' \<Rightarrow>
               (case merge_saved saved_options options of
                  Inl e \<Rightarrow> Inl e
                | Inr options' \<Rightarrow> Inr ((key, entry') # options'))))"

definition index :: "host \<Rightarrow> world \<Rightarrow> (exn + response) \<times> world" where
  "index h w =
     (case read_cmake_options h w of
        Inl e \<Rightarrow> (Inl e, w)
      | Inr options \<Rightarrow>
          (case load_saved_options h w of
             Inl e \<Rightarrow> (Inl e, w)
           | Inr saved_options \<Rightarrow>
               (case (if truthy saved_options then merge_saved saved_options options
                      else Inr options) of
                  Inl e \<Rightarrow> (Inl e, w)
                | Inr options' \<Rightarrow>
                    (case get_build_dir w of
                       Inl e \<Rightarrow> (Inl e, w)
                     | Inr (build_dir, w') \<Rightarrow>
                         (Inr (Render_template ''index.html''
                                 [(''options'', JObj options'),
                                  (''build_status'',
                                     JObj [(''exists'', JBool (os_path_exists build_dir w')),
                                           (''path'', JStr (path_string build_dir))])]),
                          w')))))"

definition save :: "host \<Rightarrow> json \<Rightarrow> world \<Rightarrow> (exn + response) \<times> world" where
  "save h options w =
     (case save_cmake_options h options w of
        (Some e, w') \<Rightarrow> (Inl e, w')
      | (None, w') \<Rightarrow> (Inr (Jsonify [(''status'', JStr ''success'')]), w'))"

definition clean :: "world \<Rightarrow> (exn + response) \<times> world" where
  "clean w =
     (case get_build_dir w of
        Inl e \<Rightarrow> (Inl e, w)
      | Inr (build_dir, w1) \<Rightarrow>
          (case shutil_rmtree build_dir w1 of
             Inl e \<Rightarrow>
               (Inr (Jsonify [(''status'', JStr ''error''), (''message'', JStr (str_exn e))]), w1)
           | Inr w2 \<Rightarrow>
               (case os_makedirs build_dir False w2 of
                  Inl e \<Rightarrow>
                    (Inr (Jsonify [(''status'', JStr ''error''), (''message'', JStr (str_exn e))]),
                     w2)
                | Inr w3 \<Rightarrow>
                    (Inr (Jsonify [(''status'', JStr ''success''),
                                   (''message'', JStr ''Build directory cleaned successfully'')]),
                     w3))))"

text \<open>
  The command of \<^verbatim>\<open>apply\<close>: \<^verbatim>\<open>cmake_cmd = ['cmake', project_dir]\<close>, then one
  \<^verbatim>\<open>append\<close> for each item of the mapping.
\<close>

fun append_flags :: "(string \<times> json) list \<Rightarrow> string list \<Rightarrow> exn + string list" where
  "append_flags [] cmake_cmd = Inr cmake_cmd"
| "append_flags ((key, value) # items) cmake_cmd =
     (case py_getitem value ''value'' of
        Inl e \<Rightarrow> Inl e
      | Inr v \<Rightarrow>
          append_flags items
            (cmake_cmd @ [''-D'' @ key @ ''='' @ (if truthy v then ''ON'' else ''OFF'')]))"

definition cmake_cmd :: "path \<Rightarrow> json \<Rightarrow> exn + string list" where
  "cmake_cmd project_dir options =
     (case py_items options of
        Inl e \<Rightarrow> Inl e
      | Inr items \<Rightarrow> append_flags items [''cmake'', path_string project_dir])"

text \<open>
  The \<^verbatim>\<open>try\<close> block of \<^verbatim>\<open>apply\<close>: every exception raised in it, by the launch or by the
  reading of the output, becomes an error result.
\<close>

definition run_configure :: "host \<Rightarrow> string list \<Rightarrow> path \<Rightarrow> world \<Rightarrow> response \<times> world" where
  "run_configure h cmd build_dir w =
     (case popen h cmd build_dir (tree w) of
        Inl e \<Rightarrow>
          (Jsonify [(''status'', JStr ''error''), (''output'', JStr (str_exn e))], w)
      | Inr p \<Rightarrow>
          (case stdout_error p of
             Some e \<Rightarrow>
               (Jsonify [(''status'', JStr ''error''), (''output'', JStr (str_exn e))],
                w\<lparr>tree := tree_after p\<rparr>)
           | None \<Rightarrow>
               (Jsonify [(''status'', JStr (if returncode p = 0 then ''success'' else ''error'')),
                         (''output'', JStr (concat (stdout_lines p)))],
                w\<lparr>tree := tree_after p\<rparr>)))"

definition apply_route :: "host \<Rightarrow> json \<Rightarrow> world \<Rightarrow> (exn + response) \<times> world" where
  "apply_route h options w =
     (case save_cmake_options h options w of
        (Some e, w1) \<Rightarrow> (Inl e, w1)
      | (None, w1) \<Rightarrow>
          (case get_build_dir w1 of
             Inl e \<Rightarrow> (Inl e, w1)
           | Inr (build_dir, w2) \<Rightarrow>
               (case cmake_cmd (get_project_root w2) options of
                  Inl e \<Rightarrow> (Inl e, w2)
                | Inr cmd \<Rightarrow>
                    (case run_configure h cmd build_dir w2 of
                       (r, w3) \<Rightarrow> (Inr r, w3)))))"

text \<open>
  The generator of \<^verbatim>\<open>build\<close>, run to its end by the server that streams the response:
  the chunks it yields, and the exception that escapes it when one is raised. Nothing in
  the generator catches an exception.
\<close>

definition generate :: "host \<Rightarrow> world \<Rightarrow> (string list \<times> exn option) \<times> world" where
  "generate h w =
     (case get_build_dir w of
        Inl e \<Rightarrow> (([], Some e), w)
      | Inr (build_dir, w1) \<Rightarrow>
          (case popen h [''cmake'', ''--build'', ''.'', ''--parallel''] build_dir (tree w1) of
             Inl e \<Rightarrow> (([], Some e), w1)
           | Inr p \<Rightarrow>
               (case stdout_error p of
                  Some e \<Rightarrow> ((stdout_lines p, Some e), w1\<lparr>tree := tree_after p\<rparr>)
                | None \<Rightarrow>
                    ((stdout_lines p
                        @ [if returncode p = 0
                           then [CHR 0x0A] @ ''Build completed successfully!'' @ [CHR 0x0A]
                           else [CHR 0x0A] @ ''Build failed with errors.'' @ [CHR 0x0A]],
                      None),
                     w1\<lparr>tree := tree_after p\<rparr>))))"

definition build :: "host \<Rightarrow> world \<Rightarrow> (exn + response) \<times> world" where
  "build h w =
     (case generate h w of
        ((chunks, raised), w') \<Rightarrow> (Inr (Stream chunks raised), w'))"

subsection \<open>Auxiliary definitions for the statements\<close>

text \<open>The item that the loop of the scanner stores for one match.\<close>

definition match_entry :: "string \<times> string \<times> string \<Rightarrow> string \<times> json" where
  "match_entry m = (case m of (option_name, description, token) \<Rightarrow>
                      (option_name, option_entry description (token = ''ON'')))"

text \<open>The status field of a JSON response.\<close>

definition response_status :: "response \<Rightarrow> json option" where
  "response_status r = (case r of Jsonify kvs \<Rightarrow> map_of kvs ''status'' | _ \<Rightarrow> None)"

text \<open>
  The child processes of a host leave a directory in place: whatever the command, a
  process started in a tree that holds the directory leaves a tree that holds it.
\<close>

definition keeps_dir :: "host \<Rightarrow> path \<Rightarrow> bool" where
  "keeps_dir h build_dir \<longleftrightarrow>
     (\<forall>cmd t p. popen h cmd build_dir t = Inr p \<longrightarrow> map_of t build_dir \<noteq> None
        \<longrightarrow> map_of (tree_after p) build_dir \<noteq> None)"




text \<open>
  The merge policy in the words of the specification. An option of the scanner is an
  identifier, a description and a default; the value that a snapshot holds for an
  identifier is the \<^verbatim>\<open>value\<close> field of its entry there. The entry shown for an option has
  the description of the scanner, and the value of the snapshot when the snapshot holds
  one for the identifier, the default of the scanner otherwise.
\<close>

definition scanned_entry :: "string \<times> string \<times> bool \<Rightarrow> string \<times> json" where
  "scanned_entry opt =
     (case opt of (name, description, default_value) \<Rightarrow>
        (name, JObj [(''description'', JStr description), (''value'', JBool default_value)]))"

definition snapshot_value :: "(string \<times> json) list \<Rightarrow> string \<Rightarrow> json option" where
  "snapshot_value saved name =
     (case map_of saved name of
        None \<Rightarrow> None
      | Some s \<Rightarrow> (case py_getitem s ''value'' of Inl e \<Rightarrow> None | Inr v \<Rightarrow> Some v))"

definition merged_entry :: "(string \<times> json) list \<Rightarrow> string \<times> string \<times> bool \<Rightarrow> string \<times> json" where
  "merged_entry saved opt =
     (case opt of (name, description, default_value) \<Rightarrow>
        (name, JObj [(''description'', JStr description),
                     (''value'', case snapshot_value saved name of
                                   Some v \<Rightarrow> v
                                 | None \<Rightarrow> JBool default_value)]))"

text \<open>An entry with the identifier and the description of an option and a given value.\<close>

definition entry_with_value :: "string \<times> string \<times> bool \<Rightarrow> json \<Rightarrow> string \<times> json" where
  "entry_with_value opt v =
     (case opt of (name, description, default_value) \<Rightarrow>
        (name, JObj [(''description'', JStr description), (''value'', v)]))"

text \<open>
  A machine with the project in \<^verbatim>\<open>proj\<close>, a given content of the configuration file and no
  build directory yet.
\<close>

definition example_world :: "string \<Rightarrow> world" where
  "example_world content =
     \<lparr>environ_TEMP = Some [''tmp''],
      home = [''home'', ''dev''],
      module_file = [''proj'', ''cmake_config_tool'', ''app.py''],
      tree = [([], Dir),
              ([''proj''], Dir),
              ([''proj'', ''cmake_config_tool''], Dir),
              ([''proj'', ''CMakeLists.txt''], File content),
              ([''tmp''], Dir)],
      locked = []\<rparr>"

text \<open>The same machine with a build directory that holds a cache file.\<close>

definition built_world :: world where
  "built_world =
     (example_world [])\<lparr>tree := tree (example_world [])
        @ [([''tmp'', ''aimrt_build''], Dir),
           ([''tmp'', ''aimrt_build'', ''CMakeCache.txt''], File ''cache'')]\<rparr>"

text \<open>The cache file is held open by another program.\<close>

definition locked_world :: world where
  "locked_world = built_world\<lparr>locked := [[''tmp'', ''aimrt_build'', ''CMakeCache.txt'']]\<rparr>"

text \<open>Option mappings as a client posts them, and a snapshot of an earlier scan.\<close>

definition foo_options :: json where
  "foo_options =
     JObj [(''FOO'', JObj [(''description'', JStr ''enable foo''), (''value'', JBool False)])]"

definition foo_flag_only :: json where
  "foo_flag_only = JObj [(''FOO'', JObj [(''value'', JBool False)])]"

definition stale_snapshot :: json where
  "stale_snapshot =
     JObj [(''A'', JObj [(''description'', JStr ''stale''), (''value'', JBool False)]),
           (''GONE'', JObj [(''description'', JStr ''removed''), (''value'', JBool True)])]"

text \<open>
  A host: the codec is Latin-1, under which every byte is the character of the same
  code; the line separator is that of POSIX; the YAML library is known on the documents
  of a table; the child process prints its command line, one argument a line, exits
  with status 0 and leaves a cache file in its working directory.
\<close>

definition yaml_table :: "(json \<times> string) list" where
  "yaml_table =
     [(foo_options,
         ''FOO:'' @ [CHR 0x0A] @ ''  description: enable foo'' @ [CHR 0x0A]
           @ ''  value: false'' @ [CHR 0x0A]),
      (foo_flag_only, ''FOO:'' @ [CHR 0x0A] @ ''  value: false'' @ [CHR 0x0A]),
      (stale_snapshot,
         ''A:'' @ [CHR 0x0A] @ ''  description: stale'' @ [CHR 0x0A]
           @ ''  value: false'' @ [CHR 0x0A]
           @ ''GONE:'' @ [CHR 0x0A] @ ''  description: removed'' @ [CHR 0x0A]
           @ ''  value: true'' @ [CHR 0x0A]),
      (JObj [], ''{}'' @ [CHR 0x0A])]"

definition example_host :: host where
  "example_host =
     \<lparr>text_decode = Inr,
      text_encode = Inr,
      linesep = [CHR 0x0A],
      yaml_dump = (\<lambda>j. case map_of yaml_table j of Some s \<Rightarrow> s | None \<Rightarrow> []),
      yaml_safe_load =
        (\<lambda>s. case map_of (map (\<lambda>(j, s). (s, j)) yaml_table) s of
                Some j \<Rightarrow> Inr j
              | None \<Rightarrow> Inl (Raise YAMLError ''not a document of the table'')),
      popen =
        (\<lambda>cmd cwd t.
           Inr \<lparr>stdout_lines = map (\<lambda>a. a @ [CHR 0x0A]) cmd,
                stdout_error = None,
                returncode = 0,
                tree_after = t @ [(cwd @ [''CMakeCache.txt''], File ''cache'')]\<rparr>)\<rparr>"

text \<open>The child process reports an error and exits with status 1.\<close>

definition failing_build_host :: host where
  "failing_build_host =
     example_host\<lparr>popen :=
       (\<lambda>cmd cwd t.
          Inr \<lparr>stdout_lines = [''Error: could not load cache'' @ [CHR 0x0A]],
               stdout_error = None,
               returncode = 1,
               tree_after = t\<rparr>)\<rparr>"

text \<open>There is no \<^verbatim>\<open>cmake\<close> on the search path: the launch raises.\<close>

definition no_cmake_host :: host where
  "no_cmake_host =
     example_host\<lparr>popen :=
       (\<lambda>cmd cwd t.
          Inl (Raise FileNotFoundError
                 (''[Errno 2] No such file or directory: '' @ [CHR 0x27] @ ''cmake'' @ [CHR 0x27])))\<rparr>"

text \<open>The child process removes its working directory and exits with status 0.\<close>

definition removing_host :: host where
  "removing_host =
     example_host\<lparr>popen :=
       (\<lambda>cmd cwd t.
          Inr \<lparr>stdout_lines = [],
               stdout_error = None,
               returncode = 0,
               tree_after = filter (\<lambda>(q, n). \<not> prefix cwd q) t\<rparr>)\<rparr>"

text \<open>
  The scenario of the specification, followed by two declarations that are not well
  formed; a text that declares one identifier twice; and a text with a repeated and a
  single identifier.
\<close>

definition scenario_text :: "piece list" where
  \<open>scenario_text =
     [Declaration \<lparr>d_name = ''FOO'', d_gap1 = '' '', d_description = ''enable foo'',
                   d_gap2 = '' '', d_token = ''ON''\<rparr>,
      Other [CHR 0x0A],
      Declaration \<lparr>d_name = ''BAR'', d_gap1 = '' '', d_description = ''enable bar'',
                   d_gap2 = '' '', d_token = ''OFF''\<rparr>,
      Other ([CHR 0x0A] @ ''option(BAD "no default")'' @ [CHR 0x0A] @ ''option(EMPTY "" ON)'')]\<close>

definition duplicate_text :: "piece list" where
  \<open>duplicate_text =
     [Declaration \<lparr>d_name = ''A'', d_gap1 = '' '', d_description = ''x'',
                   d_gap2 = '' '', d_token = ''ON''\<rparr>,
      Other '' '',
      Declaration \<lparr>d_name = ''A'', d_gap1 = '' '', d_description = ''y'',
                   d_gap2 = '' '', d_token = ''OFF''\<rparr>]\<close>

definition repeated_text :: "piece list" where
  \<open>repeated_text =
     [Declaration \<lparr>d_name = ''A'', d_gap1 = '' '', d_description = ''x'',
                   d_gap2 = '' '', d_token = ''ON''\<rparr>,
      Other '' '',
      Declaration \<lparr>d_name = ''B'', d_gap1 = '' '', d_description = ''b'',
                   d_gap2 = '' '', d_token = ''ON''\<rparr>,
      Other '' '',
      Declaration \<lparr>d_name = ''A'', d_gap1 = '' '', d_description = ''y'',
                   d_gap2 = '' '', d_token = ''OFF''\<rparr>]\<close>

text \<open>
  A machine whose configuration file declares \<^verbatim>\<open>A\<close> with the default true and \<^verbatim>\<open>B\<close> with the
  default false, and whose settings file holds the snapshot of an earlier scan.
\<close>

definition merged_world :: world where
  \<open>merged_world =
     (example_world (''option(A "a" ON)'' @ [CHR 0x0A] @ ''option(B "b" OFF)''))
       \<lparr>tree := tree (example_world (''option(A "a" ON)'' @ [CHR 0x0A] @ ''option(B "b" OFF)''))
          @ [([''proj'', ''cmake_config_tool'', ''cmake_config.yaml''],
              File (yaml_dump example_host stale_snapshot))]\<rparr>\<close>

text \<open>
  The child process writes a line, then a byte that the codec of the locale cannot
  decode, and exits with status 0.
\<close>

definition garbled_host :: host where
  "garbled_host =
     example_host\<lparr>popen :=
       (\<lambda>cmd cwd t.
          Inr \<lparr>stdout_lines = [''[100%] Built target app'' @ [CHR 0x0A]],
               stdout_error =
                 Some (Raise UnicodeDecodeError
                         ''invalid start byte''),
               returncode = 0,
               tree_after = t\<rparr>)\<rparr>"

section \<open>Properties\<close>

subsection \<open>The pattern on a well-formed declaration\<close>

lemma space_not_word: "is_space c \<Longrightarrow> \<not> is_word c"
  by (auto simp: is_space_def is_word_def Let_def)

lemma quote_not_space: "\<not> is_space (CHR 0x22)"
  by (simp add: is_space_def)

lemma paren_not_word: "\<not> is_word (CHR '')'')"
  by (simp add: is_word_def)

lemma literal_append: "literal p (p @ s) = Some s"
  by (induction p) auto

lemma takeWhile_run:
  assumes "list_all P xs" and "ys = [] \<or> \<not> P (hd ys)"
  shows "takeWhile P (xs @ ys) = xs"
proof -
  have "takeWhile P ys = []" using assms(2) by (cases ys) auto
  with assms(1) show ?thesis by (simp add: list_all_iff)
qed

lemma dropWhile_run:
  assumes "list_all P xs" and "ys = [] \<or> \<not> P (hd ys)"
  shows "dropWhile P (xs @ ys) = ys"
proof -
  have "dropWhile P ys = ys" using assms(2) by (cases ys) auto
  with assms(1) show ?thesis by (simp add: list_all_iff)
qed

lemma takeWhile_run_Cons: "list_all P xs \<Longrightarrow> \<not> P y \<Longrightarrow> takeWhile P (xs @ y # ys) = xs"
  by (simp add: list_all_iff)

lemma dropWhile_run_Cons: "list_all P xs \<Longrightarrow> \<not> P y \<Longrightarrow> dropWhile P (xs @ y # ys) = y # ys"
  by (simp add: list_all_iff)

lemma match_option_render:
  assumes wf: "well_formed d"
  shows "match_option (render_declaration d @ rest)
           = Some ((d_name d, d_description d, d_token d), rest)"
proof -
  let ?q = "CHR 0x22"
  let ?s7 = "CHR '')'' # rest"
  let ?s6 = "d_token d @ ?s7"
  let ?s5 = "d_gap2 d @ ?s6"
  let ?s4 = "?q # ?s5"
  let ?s3 = "d_description d @ ?s4"
  let ?s2 = "d_gap1 d @ ?q # ?s3"
  let ?s1 = "d_name d @ ?s2"
  from wf have n: "d_name d \<noteq> []" "list_all is_word (d_name d)"
    and g1: "d_gap1 d \<noteq> []" "list_all is_space (d_gap1 d)"
    and ds: "d_description d \<noteq> []" "list_all (\<lambda>c. c \<noteq> CHR 0x22) (d_description d)"
    and g2: "d_gap2 d \<noteq> []" "list_all is_space (d_gap2 d)"
    and tk: "d_token d \<noteq> []" "list_all is_word (d_token d)"
    by (simp_all add: well_formed_def)
  have hd1: "\<not> is_word (hd ?s2)"
    using g1 by (cases "d_gap1 d") (auto simp: space_not_word)
  have hd6: "\<not> is_space (hd ?s6)"
    using tk by (cases "d_token d") (auto dest: space_not_word)
  have e0: "literal ''option('' (render_declaration d @ rest) = Some ?s1"
    using literal_append [of "''option(''" ?s1] by (simp add: render_declaration_def)
  have e1: "takeWhile is_word ?s1 = d_name d" "dropWhile is_word ?s1 = ?s2"
    using n hd1 by (simp_all only: takeWhile_run dropWhile_run simp_thms)
  have e2: "takeWhile is_space ?s2 = d_gap1 d" "dropWhile is_space ?s2 = ?q # ?s3"
    using g1 quote_not_space by (simp_all add: takeWhile_run_Cons dropWhile_run_Cons)
  have e3: "takeWhile (\<lambda>c. \<not> is_quote c) ?s3 = d_description d"
           "dropWhile (\<lambda>c. \<not> is_quote c) ?s3 = ?s4"
    using ds by (simp_all add: takeWhile_run_Cons dropWhile_run_Cons is_quote_def)
  have e5: "takeWhile is_space ?s5 = d_gap2 d" "dropWhile is_space ?s5 = ?s6"
    using g2 hd6 by (simp_all only: takeWhile_run dropWhile_run simp_thms)
  have e6: "takeWhile is_word ?s6 = d_token d" "dropWhile is_word ?s6 = ?s7"
    using tk paren_not_word by (simp_all add: takeWhile_run_Cons dropWhile_run_Cons)
  have l3: "literal [?q] (?q # ?s3) = Some ?s3" by simp
  have l4: "literal [?q] ?s4 = Some ?s5" by simp
  have l7: "literal '')'' ?s7 = Some rest" by simp
  show ?thesis
    unfolding match_option_def e0 option.case Let_def e1 e2 l3 e3 l4 e5 e6 l7
    using n g1 ds g2 tk by simp
qed

lemma finditer_unfold:
  "s \<noteq> [] \<Longrightarrow>
   finditer s = (case match_option s of Some (m, rest) \<Rightarrow> m # finditer rest | None \<Rightarrow> finditer (tl s))"
  by (cases s) (auto split: option.splits)

lemma render_declaration_nonempty: "render_declaration d @ rest \<noteq> []"
  by (simp add: render_declaration_def)

lemma finditer_declaration:
  "well_formed d \<Longrightarrow>
   finditer (render_declaration d @ rest) = (d_name d, d_description d, d_token d) # finditer rest"
  by (simp add: finditer_unfold [OF render_declaration_nonempty] match_option_render)

text \<open>
  The converse: what the pattern matches at the start of a text is a well-formed
  declaration, and the match ends where the declaration ends.
\<close>

lemma literal_sound: "literal p s = Some r \<Longrightarrow> s = p @ r"
  by (induction p s rule: literal.induct) (auto split: if_splits)

lemma match_option_sound:
  assumes "match_option s = Some ((name, description, token), rest)"
  shows "\<exists>d. well_formed d \<and> d_name d = name \<and> d_description d = description
             \<and> d_token d = token \<and> s = render_declaration d @ rest"
proof -
  let ?q = "CHR 0x22"
  from assms obtain s1 s3 s5 where
    l1: "literal ''option('' s = Some s1" and
    n: "name = takeWhile is_word s1" "name \<noteq> []" and
    g1: "takeWhile is_space (dropWhile is_word s1) \<noteq> []" and
    l3: "literal [?q] (dropWhile is_space (dropWhile is_word s1)) = Some s3" and
    ds: "description = takeWhile (\<lambda>c. \<not> is_quote c) s3" "description \<noteq> []" and
    l5: "literal [?q] (dropWhile (\<lambda>c. \<not> is_quote c) s3) = Some s5" and
    g2: "takeWhile is_space s5 \<noteq> []" and
    tk: "token = takeWhile is_word (dropWhile is_space s5)" "token \<noteq> []" and
    l7: "literal '')'' (dropWhile is_word (dropWhile is_space s5)) = Some rest"
    by (auto simp: match_option_def Let_def split: option.splits if_splits)
  define d where "d = \<lparr>d_name = name, d_gap1 = takeWhile is_space (dropWhile is_word s1),
    d_description = description, d_gap2 = takeWhile is_space s5, d_token = token\<rparr>"
  have "list_all (\<lambda>c. c \<noteq> ?q) description"
    unfolding ds(1) list_all_iff by (auto dest: set_takeWhileD simp: is_quote_def)
  moreover have "list_all is_word name" "list_all is_word token"
    unfolding n(1) tk(1) list_all_iff by (auto dest: set_takeWhileD)
  moreover have "list_all is_space (takeWhile is_space (dropWhile is_word s1))"
    "list_all is_space (takeWhile is_space s5)"
    unfolding list_all_iff by (auto dest: set_takeWhileD)
  ultimately have wf: "well_formed d"
    using n(2) g1 ds(2) g2 tk(2) by (simp add: well_formed_def d_def)
  have "s = ''option('' @ s1"
    using l1 by (rule literal_sound)
  also have "s1 = name @ dropWhile is_word s1"
    by (simp add: n(1))
  also have "dropWhile is_word s1
      = d_gap1 d @ dropWhile is_space (dropWhile is_word s1)"
    by (simp add: d_def)
  also have "dropWhile is_space (dropWhile is_word s1) = [?q] @ s3"
    using l3 by (rule literal_sound)
  also have "s3 = description @ dropWhile (\<lambda>c. \<not> is_quote c) s3"
    by (simp add: ds(1))
  also have "dropWhile (\<lambda>c. \<not> is_quote c) s3 = [?q] @ s5"
    using l5 by (rule literal_sound)
  also have "s5 = d_gap2 d @ dropWhile is_space s5"
    by (simp add: d_def)
  also have "dropWhile is_space s5 = token @ dropWhile is_word (dropWhile is_space s5)"
    by (simp add: tk(1))
  also have "dropWhile is_word (dropWhile is_space s5) = '')'' @ rest"
    using l7 by (rule literal_sound)
  finally have "s = render_declaration d @ rest"
    by (simp add: render_declaration_def d_def)
  with wf show ?thesis
    by (intro exI [of _ d]) (simp add: d_def)
qed

text \<open>
  So a well-formed declaration begins a text exactly when the pattern matches there; this
  is also how \<open>begins_declaration\<close> is computed on a given text.
\<close>

lemma begins_declaration_code [code]: "begins_declaration s \<longleftrightarrow> match_option s \<noteq> None"
proof
  assume "begins_declaration s"
  then obtain d rest where "well_formed d" "s = render_declaration d @ rest"
    by (auto simp: begins_declaration_def)
  then show "match_option s \<noteq> None"
    by (simp add: match_option_render)
next
  assume "match_option s \<noteq> None"
  then obtain name description token rest where
    "match_option s = Some ((name, description, token), rest)"
    by (cases "match_option s") auto
  from match_option_sound [OF this] show "begins_declaration s"
    by (auto simp: begins_declaration_def)
qed

lemma finditer_free: "free_of_declarations g rest \<Longrightarrow> finditer (g @ rest) = finditer rest"
proof (induction g)
  case Nil
  then show ?case by simp
next
  case (Cons c g)
  then have "match_option (c # g @ rest) = None"
    by (cases "match_option (c # g @ rest)") (auto simp: begins_declaration_code)
  with Cons show ?case by simp
qed

lemma finditer_render:
  "well_formed_text ps \<Longrightarrow>
   finditer (render ps) = map (\<lambda>d. (d_name d, d_description d, d_token d)) (declarations ps)"
  by (induction ps rule: render.induct) (auto simp: finditer_declaration finditer_free)

subsection \<open>The dictionary built from the matches\<close>

lemma collect_options_step:
  "collect_options (m # ms) acc = collect_options ms (AList.update (fst (match_entry m)) (snd (match_entry m)) acc)"
  by (cases m) (simp add: match_entry_def)

lemma fst_match_entry: "fst (match_entry m) = fst m"
  by (cases m) (simp add: match_entry_def)

lemma update_fresh: "k \<notin> fst ` set al \<Longrightarrow> AList.update k v al = al @ [(k, v)]"
  by (induction al) auto

lemma set_update_subset: "set (AList.update k v al) \<subseteq> insert (k, v) (set al)"
  by (induction al) auto

lemma collect_distinct:
  "distinct (map fst acc) \<Longrightarrow> distinct (map fst (collect_options ms acc))"
proof (induction ms arbitrary: acc)
  case Nil
  then show ?case by simp
next
  case (Cons m ms)
  then show ?case
    by (simp only: collect_options_step) (simp add: distinct_update)
qed

lemma filter_first_occurrences_known:
  "k \<in> K \<Longrightarrow>
   filter (\<lambda>x. x \<notin> K) (first_occurrences (k # xs)) = filter (\<lambda>x. x \<notin> K) (first_occurrences xs)"
proof -
  assume k: "k \<in> K"
  have "filter (\<lambda>x. x \<notin> K) (filter (\<lambda>y. y \<noteq> k) (first_occurrences xs))
      = filter (\<lambda>x. x \<notin> K) (first_occurrences xs)"
    unfolding filter_filter by (rule filter_cong) (use k in auto)
  with k show ?thesis by simp
qed

lemma filter_first_occurrences_new:
  "k \<notin> K \<Longrightarrow>
   filter (\<lambda>x. x \<notin> K) (first_occurrences (k # xs))
     = k # filter (\<lambda>x. x \<notin> insert k K) (first_occurrences xs)"
proof -
  assume k: "k \<notin> K"
  have "filter (\<lambda>x. x \<notin> K) (filter (\<lambda>y. y \<noteq> k) (first_occurrences xs))
      = filter (\<lambda>x. x \<notin> insert k K) (first_occurrences xs)"
    unfolding filter_filter by (rule filter_cong) auto
  with k show ?thesis by simp
qed

lemma collect_keys:
  "map fst (collect_options ms acc)
     = map fst acc @ filter (\<lambda>x. x \<notin> set (map fst acc)) (first_occurrences (map fst ms))"
proof (induction ms arbitrary: acc)
  case Nil
  then show ?case by simp
next
  case (Cons m ms)
  let ?k = "fst m"
  let ?acc = "AList.update (fst (match_entry m)) (snd (match_entry m)) acc"
  have step: "map fst (collect_options (m # ms) acc)
      = map fst ?acc @ filter (\<lambda>x. x \<notin> set (map fst ?acc)) (first_occurrences (map fst ms))"
    by (simp only: collect_options_step Cons.IH)
  have fo: "first_occurrences (map fst (m # ms)) = first_occurrences (?k # map fst ms)"
    by simp
  show ?case
  proof (cases "?k \<in> set (map fst acc)")
    case True
    then have keys: "map fst ?acc = map fst acc"
      by (simp add: update_keys fst_match_entry)
    show ?thesis
      unfolding step keys fo filter_first_occurrences_known [OF True] ..
  next
    case False
    then have keys: "map fst ?acc = map fst acc @ [?k]"
      by (simp add: update_keys fst_match_entry)
    have ins: "set (map fst acc @ [?k]) = insert ?k (set (map fst acc))"
      by simp
    show ?thesis
      unfolding step keys fo filter_first_occurrences_new [OF False] ins by simp
  qed
qed

lemma collect_lookup:
  "map_of (collect_options ms acc) k
     = (case filter (\<lambda>m. fst m = k) ms of
          [] \<Rightarrow> map_of acc k
        | f # fs \<Rightarrow> Some (snd (match_entry (last (f # fs)))))"
proof (induction ms arbitrary: acc)
  case Nil
  then show ?case by simp
next
  case (Cons m ms)
  show ?case
    by (simp only: collect_options_step Cons.IH)
       (auto simp: update_conv' fst_match_entry split: list.splits)
qed

lemma collect_subset:
  "set (collect_options ms acc) \<subseteq> set acc \<union> match_entry ` set ms"
proof (induction ms arbitrary: acc)
  case Nil
  then show ?case by simp
next
  case (Cons m ms)
  have "set (collect_options (m # ms) acc)
      \<subseteq> set (AList.update (fst (match_entry m)) (snd (match_entry m)) acc) \<union> match_entry ` set ms"
    by (simp only: collect_options_step Cons.IH)
  also have "\<dots> \<subseteq> insert (match_entry m) (set acc) \<union> match_entry ` set ms"
    using set_update_subset [of "fst (match_entry m)" "snd (match_entry m)" acc] by auto
  finally show ?case by auto
qed

lemma collect_fresh:
  "distinct (map fst acc @ map fst ms) \<Longrightarrow> collect_options ms acc = acc @ map match_entry ms"
proof (induction ms arbitrary: acc)
  case Nil
  then show ?case by simp
next
  case (Cons m ms)
  from Cons.prems have fresh: "fst m \<notin> fst ` set acc" by auto
  have upd: "AList.update (fst (match_entry m)) (snd (match_entry m)) acc = acc @ [match_entry m]"
    using fresh by (simp add: update_fresh fst_match_entry [symmetric])
  have "distinct (map fst (acc @ [match_entry m]) @ map fst ms)"
    using Cons.prems by (auto simp: fst_match_entry)
  from Cons.IH [OF this] show ?case
    by (simp only: collect_options_step upd) simp
qed

lemma set_first_occurrences: "set (first_occurrences xs) = set xs"
  by (induction xs) auto

lemma distinct_first_occurrences: "distinct (first_occurrences xs)"
  by (induction xs) (auto simp: set_first_occurrences)

lemma scan_keys: "map fst (scan_options content) = first_occurrences (map fst (finditer content))"
  by (simp add: scan_options_def collect_keys)

lemma scan_length:
  "length (scan_options content) = card (set (map fst (finditer content)))"
proof -
  have "length (scan_options content) = length (map fst (scan_options content))" by simp
  also have "\<dots> = card (set (first_occurrences (map fst (finditer content))))"
    by (simp only: scan_keys distinct_card [OF distinct_first_occurrences])
  finally show ?thesis by (simp only: set_first_occurrences)
qed

lemma match_entry_fields:
  "match_entry (d_name d, d_description d, d_token d) = expected_entry d"
  by (simp add: match_entry_def expected_entry_def option_entry_def)

lemma filter_key_singleton:
  "distinct (map fst r) \<Longrightarrow> map_of r k = Some v \<Longrightarrow> filter (\<lambda>entry. fst entry = k) r = [(k, v)]"
proof (induction r)
  case Nil
  then show ?case by simp
next
  case (Cons a r)
  show ?case
  proof (cases "fst a = k")
    case True
    with Cons.prems have "k \<notin> fst ` set r" and a: "a = (k, v)"
      by (auto simp: prod_eq_iff)
    then have "filter (\<lambda>entry. fst entry = k) r = []"
      by (auto simp: filter_empty_conv)
    with a show ?thesis by simp
  next
    case False
    with Cons show ?thesis by auto
  qed
qed

subsection \<open>The scanner on a text of declarations and other text\<close>

lemma read_cmake_options_text:
  "read_file h (cmake_path w) w = Inr content \<Longrightarrow> read_cmake_options h w = Inr (scan_options content)"
  by (simp add: read_cmake_options_def)

lemma scan_render:
  "well_formed_text ps \<Longrightarrow>
   scan_options (render ps)
     = collect_options (map (\<lambda>d. (d_name d, d_description d, d_token d)) (declarations ps)) []"
  by (simp add: scan_options_def finditer_render)

lemma scan_render_keys:
  "well_formed_text ps \<Longrightarrow>
   map fst (scan_options (render ps)) = first_occurrences (map d_name (declarations ps))"
  by (simp add: scan_render collect_keys comp_def)

lemma scan_render_distinct: "distinct (map fst (scan_options (render ps)))"
  by (simp add: scan_options_def collect_distinct)

lemma scan_render_subset:
  assumes "well_formed_text ps"
  shows "set (scan_options (render ps)) \<subseteq> set (map expected_entry (declarations ps))"
proof -
  let ?ms = "map (\<lambda>d. (d_name d, d_description d, d_token d)) (declarations ps)"
  have "set (scan_options (render ps)) \<subseteq> match_entry ` set ?ms"
    using collect_subset [of ?ms "[]"] by (simp add: scan_render [OF assms])
  also have "match_entry ` set ?ms = set (map expected_entry (declarations ps))"
    by (simp add: image_image match_entry_fields)
  finally show ?thesis .
qed

lemma scan_render_in_order:
  assumes "well_formed_text ps" and "distinct (map d_name (declarations ps))"
  shows "scan_options (render ps) = map expected_entry (declarations ps)"
proof -
  let ?ms = "map (\<lambda>d. (d_name d, d_description d, d_token d)) (declarations ps)"
  have "distinct (map fst [] @ map fst ?ms)"
    using assms(2) by (simp add: comp_def)
  from collect_fresh [OF this] have "collect_options ?ms [] = map match_entry ?ms"
    by simp
  then show ?thesis
    by (simp add: scan_render [OF assms(1)] comp_def match_entry_fields)
qed

lemma scan_render_lookup:
  assumes "well_formed_text ps" and "name \<in> set (map d_name (declarations ps))"
  shows "map_of (scan_options (render ps)) name
           = Some (snd (expected_entry (last (filter (\<lambda>d. d_name d = name) (declarations ps)))))"
proof -
  let ?f = "\<lambda>d. (d_name d, d_description d, d_token d)"
  let ?ds = "filter (\<lambda>d. d_name d = name) (declarations ps)"
  have ne: "?ds \<noteq> []"
    using assms(2) by (auto simp: filter_empty_conv)
  have fl: "filter (\<lambda>m. fst m = name) (map ?f (declarations ps)) = map ?f ?ds"
    by (simp add: filter_map comp_def)
  have "map_of (scan_options (render ps)) name
      = (case map ?f ?ds of [] \<Rightarrow> None | m # ms \<Rightarrow> Some (snd (match_entry (last (m # ms)))))"
    by (simp add: scan_render [OF assms(1)] collect_lookup fl split: list.splits)
  also have "\<dots> = Some (snd (match_entry (last (map ?f ?ds))))"
    using ne by (cases "map ?f ?ds") auto
  also have "last (map ?f ?ds) = ?f (last ?ds)"
    using ne by (rule last_map)
  finally show ?thesis
    by (simp add: match_entry_fields)
qed

lemma scan_render_single:
  assumes "well_formed_text ps" and "name \<in> set (map d_name (declarations ps))"
  shows "filter (\<lambda>entry. fst entry = name) (scan_options (render ps))
           = [expected_entry (last (filter (\<lambda>d. d_name d = name) (declarations ps)))]"
proof -
  let ?ds = "filter (\<lambda>d. d_name d = name) (declarations ps)"
  have "?ds \<noteq> []"
    using assms(2) by (auto simp: filter_empty_conv)
  then have "last ?ds \<in> set ?ds"
    by (rule last_in_set)
  then have "fst (expected_entry (last ?ds)) = name"
    by (simp add: expected_entry_def)
  then have "expected_entry (last ?ds) = (name, snd (expected_entry (last ?ds)))"
    by (simp add: prod_eq_iff)
  with filter_key_singleton [OF scan_render_distinct scan_render_lookup [OF assms]]
  show ?thesis by simp
qed

subsection \<open>Claims about the scanner\<close>

text \<open>
  C1, as amended. Let the configuration file be readable and its text be a sequence of
  \<open>N\<close> well-formed declarations and of other text in which no well-formed declaration
  begins; a declaration is well formed when it is the keyword \<^verbatim>\<open>option(\<close>, an identifier of
  word characters, white space, a double-quoted description that is not empty and holds
  no double quote, white space, a final token of word characters and \<^verbatim>\<open>)\<close>. Then the
  scanner raises no error and returns exactly one entry for each distinct identifier among
  the declarations, and nothing else. Every entry is the identifier of a declaration with
  the exact description of that declaration and a default that is true iff its final
  token is exactly \<^verbatim>\<open>ON\<close>. When the identifiers of the \<open>N\<close> declarations are pairwise
  distinct, the result is exactly these \<open>N\<close> entries, in the order of the text.
\<close>

theorem scanner_entries_of_well_formed_text:
  assumes "well_formed_text ps" and "read_file h (cmake_path w) w = Inr (render ps)"
  shows "\<exists>r. read_cmake_options h w = Inr r
           \<and> distinct (map fst r)
           \<and> set (map fst r) = set (map d_name (declarations ps))
           \<and> set r \<subseteq> set (map expected_entry (declarations ps))
           \<and> (distinct (map d_name (declarations ps))
                \<longrightarrow> r = map expected_entry (declarations ps))"
proof -
  have "read_cmake_options h w = Inr (scan_options (render ps))"
    using assms(2) by (rule read_cmake_options_text)
  moreover have "distinct (map fst (scan_options (render ps)))"
    by (rule scan_render_distinct)
  moreover have "set (map fst (scan_options (render ps))) = set (map d_name (declarations ps))"
    by (simp only: scan_render_keys [OF assms(1)] set_first_occurrences)
  moreover have "set (scan_options (render ps)) \<subseteq> set (map expected_entry (declarations ps))"
    using assms(1) by (rule scan_render_subset)
  moreover have "distinct (map d_name (declarations ps))
      \<longrightarrow> scan_options (render ps) = map expected_entry (declarations ps)"
    using scan_render_in_order [OF assms(1)] by blast
  ultimately show ?thesis by blast
qed

text \<open>
  The scenario of the specification: the two declarations are found, and the two
  malformed declarations after them, one without a final token and one with an empty
  description, contribute nothing.
\<close>

theorem scanner_entries_witness:
  "well_formed_text scenario_text
   \<and> read_cmake_options example_host (example_world (render scenario_text))
       = Inr [(''FOO'', JObj [(''description'', JStr ''enable foo''), (''value'', JBool True)]),
              (''BAR'', JObj [(''description'', JStr ''enable bar''), (''value'', JBool False)])]"
proof -
  let ?w = "example_world (render scenario_text)"
  have wf: "well_formed_text scenario_text"
    by code_simp
  have rf: "read_file example_host (cmake_path ?w) ?w = Inr (render scenario_text)"
    by code_simp
  have di: "distinct (map d_name (declarations scenario_text))"
    by (simp add: scenario_text_def)
  from scanner_entries_of_well_formed_text [OF wf rf] di
  have "read_cmake_options example_host ?w = Inr (map expected_entry (declarations scenario_text))"
    by auto
  then show ?thesis
    using wf by (simp add: scenario_text_def expected_entry_def)
qed

text \<open>
  C1 as first stated asks for exactly \<open>N\<close> entries for \<open>N\<close> well-formed declarations. Two
  well-formed declarations of the same identifier give one entry.
\<close>

theorem scanner_duplicate_counterexample:
  "well_formed_text duplicate_text
   \<and> length (declarations duplicate_text) = 2
   \<and> read_cmake_options example_host (example_world (render duplicate_text))
       = Inr [(''A'', JObj [(''description'', JStr ''y''), (''value'', JBool False)])]"
proof -
  have "well_formed_text duplicate_text"
    by code_simp
  moreover have "length (declarations duplicate_text) = 2"
    by (simp add: duplicate_text_def)
  moreover have "read_cmake_options example_host (example_world (render duplicate_text))
       = Inr [(''A'', JObj [(''description'', JStr ''y''), (''value'', JBool False)])]"
    by code_simp
  ultimately show ?thesis by blast
qed

text \<open>
  C9. Let the configuration file be readable and its text be a sequence of well-formed
  declarations and of other text in which no well-formed declaration begins. Then every
  identifier that the text declares, once or more than once, has a single entry in the
  result of the scanner; the description and the default of that entry are those of the
  last declaration of the identifier in the text; and the entries stand in the order in
  which the identifiers first occur in the text.
\<close>

theorem scanner_repeated_identifier:
  assumes "well_formed_text ps" and "read_file h (cmake_path w) w = Inr (render ps)"
  shows "\<exists>r. read_cmake_options h w = Inr r
           \<and> map fst r = first_occurrences (map d_name (declarations ps))
           \<and> (\<forall>name \<in> set (map d_name (declarations ps)).
                 filter (\<lambda>entry. fst entry = name) r
                   = [expected_entry (last (filter (\<lambda>d. d_name d = name) (declarations ps)))])"
proof -
  have "read_cmake_options h w = Inr (scan_options (render ps))"
    using assms(2) by (rule read_cmake_options_text)
  moreover have "map fst (scan_options (render ps))
      = first_occurrences (map d_name (declarations ps))"
    using assms(1) by (rule scan_render_keys)
  moreover have "\<forall>name \<in> set (map d_name (declarations ps)).
      filter (\<lambda>entry. fst entry = name) (scan_options (render ps))
        = [expected_entry (last (filter (\<lambda>d. d_name d = name) (declarations ps)))]"
    using scan_render_single [OF assms(1)] by blast
  ultimately show ?thesis by blast
qed

text \<open>
  A text that declares \<^verbatim>\<open>A\<close>, then \<^verbatim>\<open>B\<close>, then \<^verbatim>\<open>A\<close> again: the entry of \<^verbatim>\<open>A\<close> stands first and
  holds the description and the default of the second declaration of \<^verbatim>\<open>A\<close>.
\<close>

theorem scanner_repeated_identifier_witness:
  "well_formed_text repeated_text
   \<and> read_cmake_options example_host (example_world (render repeated_text))
       = Inr [(''A'', JObj [(''description'', JStr ''y''), (''value'', JBool False)]),
              (''B'', JObj [(''description'', JStr ''b''), (''value'', JBool True)])]"
proof -
  let ?w = "example_world (render repeated_text)"
  have wf: "well_formed_text repeated_text"
    by code_simp
  have rf: "read_file example_host (cmake_path ?w) ?w = Inr (render repeated_text)"
    by code_simp
  have names: "map d_name (declarations repeated_text) = [''A'', ''B'', ''A'']"
    by (simp add: repeated_text_def)
  from scanner_repeated_identifier [OF wf rf] obtain r where
    r: "read_cmake_options example_host ?w = Inr r" and
    keys: "map fst r = first_occurrences (map d_name (declarations repeated_text))" and
    single: "\<forall>name \<in> set (map d_name (declarations repeated_text)).
       filter (\<lambda>entry. fst entry = name) r
         = [expected_entry (last (filter (\<lambda>d. d_name d = name) (declarations repeated_text)))]"
    by blast
  from keys have "map fst r = [''A'', ''B'']"
    by (simp add: names)
  then obtain a b where ab: "r = [(''A'', a), (''B'', b)]"
    by (auto simp: map_eq_Cons_conv)
  from single have
    "filter (\<lambda>entry. fst entry = ''A'') r
       = [(''A'', JObj [(''description'', JStr ''y''), (''value'', JBool False)])]"
    "filter (\<lambda>entry. fst entry = ''B'') r
       = [(''B'', JObj [(''description'', JStr ''b''), (''value'', JBool True)])]"
    by (simp_all add: repeated_text_def expected_entry_def)
  then have "a = JObj [(''description'', JStr ''y''), (''value'', JBool False)]"
    and "b = JObj [(''description'', JStr ''b''), (''value'', JBool True)]"
    by (simp_all add: ab)
  with r ab wf show ?thesis by simp
qed

subsection \<open>The file tree\<close>

lemmas program_defs =
  get_project_root_def build_dir_path_def get_build_dir_def cmake_path_def config_path_def
  os_path_dirname_def os_path_join_def os_path_exists_def os_makedirs_def shutil_rmtree_def
  os_error_def read_file_def write_file_def write_newlines_def save_cmake_options_def
  load_saved_options_def read_cmake_options_def Let_def

lemmas example_defs =
  example_world_def built_world_def locked_world_def foo_options_def foo_flag_only_def
  stale_snapshot_def yaml_table_def example_host_def failing_build_host_def no_cmake_host_def
  removing_host_def garbled_host_def

lemma map_of_all_Dir:
  "q \<in> set qs \<Longrightarrow> map_of (map (\<lambda>q. (q, Dir)) qs) q = Some Dir"
  by (induction qs) auto

lemma makedirs_fields:
  assumes "os_makedirs p e w = Inr w'"
  shows "environ_TEMP w' = environ_TEMP w" "home w' = home w"
        "module_file w' = module_file w" "locked w' = locked w"
  using assms by (auto simp: os_makedirs_def split: option.splits node.splits if_splits)

lemma makedirs_tree:
  assumes "os_makedirs p e w = Inr w'"
  shows "\<exists>qs. tree w' = tree w @ map (\<lambda>q. (q, Dir)) qs \<and> (\<forall>q \<in> set qs. prefix q p)"
proof -
  have "tree w' = tree w @ map (\<lambda>q. (q, Dir)) []
      \<or> tree w' = tree w @ map (\<lambda>q. (q, Dir)) (filter (\<lambda>q. map_of (tree w) q = None) (prefixes p))"
    using assms by (auto simp: os_makedirs_def split: option.splits node.splits if_splits)
  then show ?thesis
  proof
    assume "tree w' = tree w @ map (\<lambda>q. (q, Dir)) []"
    then show ?thesis by (intro exI [of _ "[]"]) simp
  next
    assume "tree w' = tree w @ map (\<lambda>q. (q, Dir)) (filter (\<lambda>q. map_of (tree w) q = None) (prefixes p))"
    then show ?thesis
      by (intro exI [of _ "filter (\<lambda>q. map_of (tree w) q = None) (prefixes p)"]) simp
  qed
qed

lemma makedirs_exists:
  assumes "os_makedirs p e w = Inr w'"
  shows "map_of (tree w') p = Some Dir"
proof (cases "map_of (tree w) p")
  case None
  with assms have t: "tree w' = tree w
      @ map (\<lambda>q. (q, Dir)) (filter (\<lambda>q. map_of (tree w) q = None) (prefixes p))"
    by (auto simp: os_makedirs_def split: if_splits)
  have "p \<in> set (filter (\<lambda>q. map_of (tree w) q = None) (prefixes p))"
    using None by simp
  then have "map_of (map (\<lambda>q. (q, Dir)) (filter (\<lambda>q. map_of (tree w) q = None) (prefixes p))) p
      = Some Dir"
    by (rule map_of_all_Dir)
  then show ?thesis
    using None by (simp add: t map_add_def)
next
  case (Some n)
  with assms show ?thesis
    by (auto simp: os_makedirs_def split: node.splits if_splits)
qed

lemma makedirs_preserves:
  assumes "os_makedirs p e w = Inr w'" and "map_of (tree w) q \<noteq> None"
  shows "map_of (tree w') q \<noteq> None"
proof -
  from makedirs_tree [OF assms(1)] obtain qs where "tree w' = tree w @ map (\<lambda>q. (q, Dir)) qs"
    by blast
  with assms(2) show ?thesis by (auto simp: map_add_def split: option.splits)
qed

lemma get_build_dir_result:
  assumes "get_build_dir w = Inr (build_dir, w')"
  shows "build_dir = build_dir_path w" "os_makedirs (build_dir_path w) True w = Inr w'"
  using assms by (auto simp: get_build_dir_def Let_def split: sum.splits)

lemma build_dir_path_cong:
  "environ_TEMP w' = environ_TEMP w \<Longrightarrow> home w' = home w \<Longrightarrow> build_dir_path w' = build_dir_path w"
  by (simp add: build_dir_path_def split: option.splits)

lemma get_build_dir_exists:
  assumes "get_build_dir w = Inr (build_dir, w')"
  shows "map_of (tree w') (build_dir_path w) = Some Dir" "build_dir_path w' = build_dir_path w"
        "module_file w' = module_file w"
  using get_build_dir_result [OF assms] makedirs_exists makedirs_fields build_dir_path_cong
  by metis+

lemma rmtree_result:
  assumes "shutil_rmtree p w = Inr w'"
  shows "w' = w\<lparr>tree := filter (\<lambda>(q, n). \<not> prefix p q) (tree w)\<rparr>"
  using assms by (auto simp: shutil_rmtree_def split: option.splits node.splits list.splits)

lemma rmtree_then_makedirs_empty:
  assumes "shutil_rmtree p w = Inr w2" and "os_makedirs p e w2 = Inr w3"
  shows "is_empty_dir p w3"
proof -
  have t2: "tree w2 = filter (\<lambda>(q, n). \<not> prefix p q) (tree w)"
    using rmtree_result [OF assms(1)] by simp
  from makedirs_tree [OF assms(2)] obtain qs where
    t3: "tree w3 = tree w2 @ map (\<lambda>q. (q, Dir)) qs" and qs: "\<forall>q \<in> set qs. prefix q p"
    by blast
  have "\<forall>(q, n) \<in> set (tree w3). \<not> strict_prefix p q"
    using qs by (auto simp: t3 t2 strict_prefix_def)
  then show ?thesis
    using makedirs_exists [OF assms(2)] by (auto simp: is_empty_dir_def list_all_iff)
qed

lemma write_file_fields:
  assumes "write_file h p s w = (r, w')"
  shows "environ_TEMP w' = environ_TEMP w" "home w' = home w" "module_file w' = module_file w"
  using assms
  by (auto simp: write_file_def split: option.splits node.splits sum.splits prod.splits)

lemma write_file_preserves:
  assumes "write_file h p s w = (r, w')" and "map_of (tree w) q \<noteq> None"
  shows "map_of (tree w') q \<noteq> None"
  using assms
  by (auto simp: write_file_def update_conv' split: option.splits node.splits sum.splits
        prod.splits if_splits)


lemma save_keeps_paths:
  assumes "save_cmake_options h options w = (r, w')"
  shows "build_dir_path w' = build_dir_path w" "config_path w' = config_path w"
        "get_project_root w' = get_project_root w"
  using write_file_fields [OF assms [unfolded save_cmake_options_def]]
  by (simp_all add: build_dir_path_def config_path_def get_project_root_def split: option.splits)

lemma save_keeps_entries:
  assumes "save_cmake_options h options w = (r, w')" and "map_of (tree w) q \<noteq> None"
  shows "map_of (tree w') q \<noteq> None"
  using assms unfolding save_cmake_options_def by (rule write_file_preserves)

lemma run_configure_keeps:
  assumes "keeps_dir h build_dir" and "map_of (tree w) build_dir \<noteq> None"
      and "run_configure h cmd build_dir w = (r, w')"
  shows "map_of (tree w') build_dir \<noteq> None"
proof (cases "popen h cmd build_dir (tree w)")
  case (Inl e)
  with assms(2,3) show ?thesis by (auto simp: run_configure_def)
next
  case (Inr p)
  with assms(3) have "tree w' = tree_after p"
    by (auto simp: run_configure_def split: option.splits)
  with assms(1,2) Inr show ?thesis by (auto simp: keeps_dir_def)
qed

lemma example_build_dir:
  "build_dir_path (example_world c) = [''tmp'', ''aimrt_build'']"
  "build_dir_path built_world = [''tmp'', ''aimrt_build'']"
  "build_dir_path locked_world = [''tmp'', ''aimrt_build'']"
  by (simp_all add: program_defs example_defs)

lemma example_get_build_dir:
  "get_build_dir (example_world c)
     = Inr ([''tmp'', ''aimrt_build''],
            (example_world c)\<lparr>tree := tree (example_world c) @ [([''tmp'', ''aimrt_build''], Dir)]\<rparr>)"
  "get_build_dir built_world = Inr ([''tmp'', ''aimrt_build''], built_world)"
  "get_build_dir locked_world = Inr ([''tmp'', ''aimrt_build''], locked_world)"
  by (simp_all add: program_defs example_defs)

lemma example_keeps_dir: "keeps_dir example_host p"
  by (auto simp: keeps_dir_def example_host_def map_add_def split: option.splits)

subsection \<open>Claims about the build directory\<close>

text \<open>
  C7. In every state in which \<^verbatim>\<open>clean\<close> succeeds, that is, answers with the status
  \<^verbatim>\<open>success\<close>, the build directory exists after the call, is empty, and its path is the
  path it had before the call. When the build directory is resolved and its removal
  fails, \<^verbatim>\<open>clean\<close> does not raise: it answers with the status \<^verbatim>\<open>error\<close> and the message of
  the exception.
\<close>

theorem clean_resets_build_dir:
  "(\<forall>r. fst (clean w) = Inr r \<and> response_status r = Some (JStr ''success'')
        \<longrightarrow> is_empty_dir (build_dir_path w) (snd (clean w))
            \<and> build_dir_path (snd (clean w)) = build_dir_path w)
   \<and> (\<forall>build_dir w1 e. get_build_dir w = Inr (build_dir, w1) \<and> shutil_rmtree build_dir w1 = Inl e
        \<longrightarrow> fst (clean w)
              = Inr (Jsonify [(''status'', JStr ''error''), (''message'', JStr (str_exn e))]))"
proof (intro conjI allI impI)
  fix r
  assume a: "fst (clean w) = Inr r \<and> response_status r = Some (JStr ''success'')"
  then obtain build_dir w1 w2 w3 where
    g: "get_build_dir w = Inr (build_dir, w1)" and
    rm: "shutil_rmtree build_dir w1 = Inr w2" and
    mk: "os_makedirs build_dir False w2 = Inr w3" and
    res: "snd (clean w) = w3"
    by (auto simp: clean_def response_status_def split: sum.splits prod.splits)
  have bd: "build_dir = build_dir_path w"
    using get_build_dir_result(1) [OF g] .
  have "is_empty_dir build_dir w3"
    using rmtree_then_makedirs_empty [OF rm mk] .
  moreover have "build_dir_path w3 = build_dir_path w1"
    using rmtree_result [OF rm] makedirs_fields [OF mk] by (intro build_dir_path_cong) simp_all
  then have "build_dir_path w3 = build_dir_path w"
    using get_build_dir_exists(2) [OF g] by simp
  ultimately show "is_empty_dir (build_dir_path w) (snd (clean w))"
    and "build_dir_path (snd (clean w)) = build_dir_path w"
    by (simp_all add: res bd)
next
  fix build_dir w1 e
  assume "get_build_dir w = Inr (build_dir, w1) \<and> shutil_rmtree build_dir w1 = Inl e"
  then show "fst (clean w)
      = Inr (Jsonify [(''status'', JStr ''error''), (''message'', JStr (str_exn e))])"
    by (simp add: clean_def)
qed

text \<open>
  A build directory with a cache file is empty after \<^verbatim>\<open>clean\<close>, which answers with the
  status \<^verbatim>\<open>success\<close>; when the cache file is held open by another program, \<^verbatim>\<open>clean\<close> answers
  with the status \<^verbatim>\<open>error\<close> and the message of the operating system.
\<close>

theorem clean_resets_build_dir_witness:
  "fst (clean built_world)
     = Inr (Jsonify [(''status'', JStr ''success''),
                     (''message'', JStr ''Build directory cleaned successfully'')])
   \<and> tree (snd (clean built_world)) = tree (example_world []) @ [([''tmp'', ''aimrt_build''], Dir)]
   \<and> is_empty_dir [''tmp'', ''aimrt_build''] (snd (clean built_world))
   \<and> build_dir_path (snd (clean built_world)) = [''tmp'', ''aimrt_build'']
   \<and> fst (clean locked_world)
       = Inr (Jsonify [(''status'', JStr ''error''),
                       (''message'',
                        JStr (''[Errno 13] Permission denied: '' @ [CHR 0x27]
                                @ ''tmp/aimrt_build/CMakeCache.txt'' @ [CHR 0x27]))])"
proof -
  have ok: "fst (clean built_world)
      = Inr (Jsonify [(''status'', JStr ''success''),
                      (''message'', JStr ''Build directory cleaned successfully'')])"
    by (simp add: clean_def example_get_build_dir)
       (simp add: program_defs example_defs)
  have tr: "tree (snd (clean built_world))
      = tree (example_world []) @ [([''tmp'', ''aimrt_build''], Dir)]"
    by (simp add: clean_def example_get_build_dir)
       (simp add: program_defs example_defs)
  have st: "response_status (Jsonify [(''status'', JStr ''success''),
                      (''message'', JStr ''Build directory cleaned successfully'')])
      = Some (JStr ''success'')"
    by (simp add: response_status_def)
  have rm: "shutil_rmtree [''tmp'', ''aimrt_build''] locked_world
      = Inl (os_error PermissionError [''tmp'', ''aimrt_build'', ''CMakeCache.txt''])"
    by (simp add: program_defs example_defs)
  from clean_resets_build_dir [of built_world] ok st
  have "is_empty_dir (build_dir_path built_world) (snd (clean built_world))
      \<and> build_dir_path (snd (clean built_world)) = build_dir_path built_world"
    by blast
  moreover from clean_resets_build_dir [of locked_world] example_get_build_dir(3) rm
  have "fst (clean locked_world)
      = Inr (Jsonify [(''status'', JStr ''error''),
                      (''message'',
                       JStr (str_exn (os_error PermissionError
                                        [''tmp'', ''aimrt_build'', ''CMakeCache.txt''])))])"
    by blast
  ultimately show ?thesis
    using ok tr by (simp add: example_build_dir os_error_def)
qed

lemma config_path_not_build_dir: "config_path w \<noteq> build_dir_path w'"
proof
  assume "config_path w = build_dir_path w'"
  then have "last (config_path w) = last (build_dir_path w')"
    by simp
  then show False
    by (simp add: config_path_def build_dir_path_def os_path_join_def)
qed

lemma save_keeps_build_dir:
  assumes "save_cmake_options h options w = (r, w')"
  shows "map_of (tree w') (build_dir_path w) = None \<longleftrightarrow> map_of (tree w) (build_dir_path w) = None"
  using assms config_path_not_build_dir [of w w]
  by (auto simp: save_cmake_options_def write_file_def update_conv'
        split: option.splits node.splits sum.splits prod.splits if_splits)

text \<open>
  C8, as amended. For \<^verbatim>\<open>index\<close>, \<^verbatim>\<open>clean\<close>, \<^verbatim>\<open>apply\<close> and \<^verbatim>\<open>build\<close>, the build directory exists
  when the handler returns successfully: for \<^verbatim>\<open>clean\<close> that is an answer with the status
  \<^verbatim>\<open>success\<close>, for \<^verbatim>\<open>build\<close> a stream that runs to its end without an exception; for \<^verbatim>\<open>apply\<close>
  and \<^verbatim>\<open>build\<close> the child process, which runs in the build directory, must leave the
  directory in place. \<^verbatim>\<open>save\<close> does not resolve the build directory: after a successful
  \<^verbatim>\<open>save\<close> the directory exists iff it existed before.
\<close>

theorem build_dir_exists_after_handlers:
  "(\<forall>r. fst (index h w) = Inr r
        \<longrightarrow> os_path_exists (build_dir_path w) (snd (index h w)))
   \<and> (\<forall>r. fst (clean w) = Inr r \<and> response_status r = Some (JStr ''success'')
        \<longrightarrow> os_path_exists (build_dir_path w) (snd (clean w)))
   \<and> (\<forall>r. keeps_dir h (build_dir_path w) \<and> fst (apply_route h options w) = Inr r
        \<longrightarrow> os_path_exists (build_dir_path w) (snd (apply_route h options w)))
   \<and> (\<forall>chunks. keeps_dir h (build_dir_path w) \<and> fst (build h w) = Inr (Stream chunks None)
        \<longrightarrow> os_path_exists (build_dir_path w) (snd (build h w)))
   \<and> (\<forall>r. fst (save h options w) = Inr r
        \<longrightarrow> os_path_exists (build_dir_path w) (snd (save h options w))
              = os_path_exists (build_dir_path w) w)"
proof (intro conjI allI impI)
  fix r
  assume "fst (index h w) = Inr r"
  then obtain build_dir w' where g: "get_build_dir w = Inr (build_dir, w')"
    and res: "snd (index h w) = w'"
    by (auto simp: index_def split: sum.splits prod.splits)
  show "os_path_exists (build_dir_path w) (snd (index h w))"
    using get_build_dir_exists(1) [OF g] by (simp add: res os_path_exists_def)
next
  fix r
  assume "fst (clean w) = Inr r \<and> response_status r = Some (JStr ''success'')"
  then obtain build_dir w1 w2 w3 where
    g: "get_build_dir w = Inr (build_dir, w1)" and
    mk: "os_makedirs build_dir False w2 = Inr w3" and
    res: "snd (clean w) = w3"
    by (auto simp: clean_def response_status_def split: sum.splits prod.splits)
  show "os_path_exists (build_dir_path w) (snd (clean w))"
    using makedirs_exists [OF mk] get_build_dir_result(1) [OF g]
    by (simp add: res os_path_exists_def)
next
  fix r
  assume a: "keeps_dir h (build_dir_path w) \<and> fst (apply_route h options w) = Inr r"
  then obtain w1 build_dir w2 cmd w3 where
    s: "save_cmake_options h options w = (None, w1)" and
    g: "get_build_dir w1 = Inr (build_dir, w2)" and
    rc: "run_configure h cmd build_dir w2 = (r, w3)" and
    res: "snd (apply_route h options w) = w3"
    by (auto simp: apply_route_def split: sum.splits prod.splits option.splits)
  have bd: "build_dir = build_dir_path w"
    using get_build_dir_result(1) [OF g] save_keeps_paths(1) [OF s] by simp
  have "map_of (tree w2) build_dir \<noteq> None"
    using get_build_dir_exists(1) [OF g] save_keeps_paths(1) [OF s] by (simp add: bd)
  from run_configure_keeps [OF _ this rc] a
  show "os_path_exists (build_dir_path w) (snd (apply_route h options w))"
    by (simp add: res bd os_path_exists_def)
next
  fix chunks
  assume a: "keeps_dir h (build_dir_path w) \<and> fst (build h w) = Inr (Stream chunks None)"
  then obtain build_dir w1 p where
    g: "get_build_dir w = Inr (build_dir, w1)" and
    po: "popen h [''cmake'', ''--build'', ''.'', ''--parallel''] build_dir (tree w1) = Inr p" and
    res: "snd (build h w) = w1\<lparr>tree := tree_after p\<rparr>"
    by (auto simp: build_def generate_def split: sum.splits prod.splits option.splits)
  have bd: "build_dir = build_dir_path w"
    using get_build_dir_result(1) [OF g] .
  have "map_of (tree w1) build_dir \<noteq> None"
    using get_build_dir_exists(1) [OF g] by (simp add: bd)
  with a po have "map_of (tree_after p) build_dir \<noteq> None"
    by (auto simp: keeps_dir_def bd)
  then show "os_path_exists (build_dir_path w) (snd (build h w))"
    by (simp add: res bd os_path_exists_def)
next
  fix r
  assume a: "fst (save h options w) = Inr r"
  then obtain w' where s: "save_cmake_options h options w = (None, w')"
    and res: "snd (save h options w) = w'"
    by (auto simp: save_def split: sum.splits prod.splits option.splits)
  show "os_path_exists (build_dir_path w) (snd (save h options w))
      = os_path_exists (build_dir_path w) w"
    using save_keeps_build_dir [OF s] by (simp add: res os_path_exists_def)
qed

text \<open>
  On a machine without a build directory \<^verbatim>\<open>index\<close>, \<^verbatim>\<open>apply\<close> and \<^verbatim>\<open>build\<close> create it; \<^verbatim>\<open>clean\<close>
  and \<^verbatim>\<open>save\<close> on a machine that has it leave it in place.
\<close>

theorem build_dir_exists_after_handlers_witness:
  "os_path_exists [''tmp'', ''aimrt_build''] (snd (index example_host (example_world [])))
   \<and> os_path_exists [''tmp'', ''aimrt_build''] (snd (clean built_world))
   \<and> os_path_exists [''tmp'', ''aimrt_build'']
        (snd (apply_route example_host foo_options (example_world [])))
   \<and> os_path_exists [''tmp'', ''aimrt_build''] (snd (build example_host (example_world [])))
   \<and> os_path_exists [''tmp'', ''aimrt_build''] (snd (save example_host foo_options built_world))"
proof -
  let ?w = "example_world []"
  have i: "\<exists>r. fst (index example_host ?w) = Inr r"
    by (simp add: index_def example_get_build_dir)
       (simp add: program_defs example_defs scan_options_def)
  have c: "fst (clean built_world)
      = Inr (Jsonify [(''status'', JStr ''success''),
                      (''message'', JStr ''Build directory cleaned successfully'')])"
    by (simp add: clean_def example_get_build_dir)
       (simp add: program_defs example_defs)
  have st: "response_status (Jsonify [(''status'', JStr ''success''),
                      (''message'', JStr ''Build directory cleaned successfully'')])
      = Some (JStr ''success'')"
    by (simp add: response_status_def)
  have a: "\<exists>r. fst (apply_route example_host foo_options ?w) = Inr r"
    by (simp add: apply_route_def run_configure_def cmake_cmd_def program_defs example_defs
          split: prod.splits)
  have b: "\<exists>chunks. fst (build example_host ?w) = Inr (Stream chunks None)"
    by (simp add: build_def generate_def example_get_build_dir)
       (simp add: example_defs)
  have s: "\<exists>r. fst (save example_host foo_options built_world) = Inr r"
    by (simp add: save_def program_defs example_defs)
  have e: "os_path_exists (build_dir_path built_world) built_world"
    by (simp add: program_defs example_defs)
  note handlers = build_dir_exists_after_handlers
  from handlers [of example_host ?w] i
  have 1: "os_path_exists (build_dir_path ?w) (snd (index example_host ?w))" by blast
  from handlers [of _ built_world] c st
  have 2: "os_path_exists (build_dir_path built_world) (snd (clean built_world))" by blast
  from handlers [of example_host ?w foo_options] a example_keeps_dir
  have 3: "os_path_exists (build_dir_path ?w) (snd (apply_route example_host foo_options ?w))"
    by blast
  from handlers [of example_host ?w] b example_keeps_dir
  have 4: "os_path_exists (build_dir_path ?w) (snd (build example_host ?w))" by blast
  from handlers [of example_host built_world foo_options] s e
  have 5: "os_path_exists (build_dir_path built_world)
             (snd (save example_host foo_options built_world))" by blast
  from 1 2 3 4 5 show ?thesis
    by (simp add: example_build_dir)
qed

text \<open>
  C8 as first stated asks for the build directory after every handler that returns
  successfully. On a machine that has no build directory, where the module was loaded by
  a server and not run as a script, \<^verbatim>\<open>save\<close> answers with the status \<^verbatim>\<open>success\<close> and there
  is still no build directory: \<^verbatim>\<open>save\<close> never resolves it. And when the child process of
  \<^verbatim>\<open>apply\<close> removes its working directory and exits with status 0, \<^verbatim>\<open>apply\<close> answers with the
  status \<^verbatim>\<open>success\<close> and the build directory is gone.
\<close>

theorem save_without_build_dir_counterexample:
  "fst (save example_host foo_options (example_world []))
     = Inr (Jsonify [(''status'', JStr ''success'')])
   \<and> \<not> os_path_exists [''tmp'', ''aimrt_build'']
         (snd (save example_host foo_options (example_world [])))
   \<and> fst (apply_route removing_host foo_options (example_world []))
     = Inr (Jsonify [(''status'', JStr ''success''), (''output'', JStr [])])
   \<and> \<not> os_path_exists [''tmp'', ''aimrt_build'']
         (snd (apply_route removing_host foo_options (example_world [])))"
  by (simp add: save_def apply_route_def run_configure_def cmake_cmd_def
        program_defs example_defs)

subsection \<open>Claims about the settings store\<close>



subsection \<open>Claims about the command runner\<close>




text \<open>
  C5. Let the build directory be resolved and the child process of \<^verbatim>\<open>build\<close> be started.
  When the output of the process is read to its end, the stream is the lines of the
  process followed by exactly one sentinel line: \<^verbatim>\<open>Build completed successfully!\<close> when the exit
  status is zero, \<^verbatim>\<open>Build failed with errors.\<close> otherwise. When the reading of the output
  raises, the exception ends the stream after the lines read so far: there is no
  sentinel, whatever the exit status, because the generator catches no exception.
\<close>

theorem build_stream_sentinel:
  assumes "get_build_dir w = Inr (build_dir, w1)"
      and "popen h [''cmake'', ''--build'', ''.'', ''--parallel''] build_dir (tree w1) = Inr p"
  shows "fst (build h w) =
           Inr (case stdout_error p of
                  None \<Rightarrow>
                    Stream (stdout_lines p
                              @ [if returncode p = 0
                                 then [CHR 0x0A] @ ''Build completed successfully!'' @ [CHR 0x0A]
                                 else [CHR 0x0A] @ ''Build failed with errors.'' @ [CHR 0x0A]])
                      None
                | Some e \<Rightarrow> Stream (stdout_lines p) (Some e))"
  using assms by (simp add: build_def generate_def split: option.splits)

text \<open>
  A build that exits with status 0, a build that exits with status 1, and a build that
  exits with status 0 after it wrote a byte that cannot be decoded: the last stream has
  no sentinel.
\<close>

theorem build_stream_sentinel_witness:
  "fst (build example_host (example_world []))
     = Inr (Stream [''cmake'' @ [CHR 0x0A], ''--build'' @ [CHR 0x0A], ''.'' @ [CHR 0x0A],
                    ''--parallel'' @ [CHR 0x0A],
                    [CHR 0x0A] @ ''Build completed successfully!'' @ [CHR 0x0A]] None)
   \<and> fst (build failing_build_host (example_world []))
     = Inr (Stream [''Error: could not load cache'' @ [CHR 0x0A],
                    [CHR 0x0A] @ ''Build failed with errors.'' @ [CHR 0x0A]] None)
   \<and> fst (build garbled_host (example_world []))
     = Inr (Stream [''[100%] Built target app'' @ [CHR 0x0A]]
              (Some (Raise UnicodeDecodeError ''invalid start byte'')))"
proof -
  let ?w = "example_world []"
  let ?w1 = "?w\<lparr>tree := tree ?w @ [([''tmp'', ''aimrt_build''], Dir)]\<rparr>"
  let ?cmd = "[''cmake'', ''--build'', ''.'', ''--parallel'']"
  obtain p where p: "popen example_host ?cmd [''tmp'', ''aimrt_build''] (tree ?w1) = Inr p"
    and pv: "stdout_lines p = map (\<lambda>a. a @ [CHR 0x0A]) ?cmd" "returncode p = 0"
      "stdout_error p = None"
    by (simp add: example_host_def)
  obtain q where q: "popen failing_build_host ?cmd [''tmp'', ''aimrt_build''] (tree ?w1) = Inr q"
    and qv: "stdout_lines q = [''Error: could not load cache'' @ [CHR 0x0A]]" "returncode q = 1"
      "stdout_error q = None"
    by (simp add: failing_build_host_def example_host_def)
  obtain g where g: "popen garbled_host ?cmd [''tmp'', ''aimrt_build''] (tree ?w1) = Inr g"
    and gv: "stdout_lines g = [''[100%] Built target app'' @ [CHR 0x0A]]" "returncode g = 0"
      "stdout_error g = Some (Raise UnicodeDecodeError ''invalid start byte'')"
    by (simp add: garbled_host_def example_host_def)
  from build_stream_sentinel [OF example_get_build_dir(1) p]
       build_stream_sentinel [OF example_get_build_dir(1) q]
       build_stream_sentinel [OF example_get_build_dir(1) g]
  show ?thesis
    by (simp add: pv qv gv)
qed

text \<open>
  C2. When the child process cannot be started, \<^verbatim>\<open>apply\<close> captures the exception of the
  launch and answers with the status \<^verbatim>\<open>error\<close> and the message of the exception. \<^verbatim>\<open>build\<close>
  does not: its generator launches the process outside any \<^verbatim>\<open>try\<close>, so the exception ends
  the stream before its first chunk and no error result reaches the client.
\<close>

theorem build_launch_failure_escapes:
  "(\<forall>build_dir w1 e.
       get_build_dir w = Inr (build_dir, w1)
       \<and> popen h [''cmake'', ''--build'', ''.'', ''--parallel''] build_dir (tree w1) = Inl e
       \<longrightarrow> build h w = (Inr (Stream [] (Some e)), w1))
   \<and> (\<forall>w1 build_dir w2 cmd e.
       save_cmake_options h options w = (None, w1)
       \<and> get_build_dir w1 = Inr (build_dir, w2)
       \<and> cmake_cmd (get_project_root w2) options = Inr cmd
       \<and> popen h cmd build_dir (tree w2) = Inl e
       \<longrightarrow> apply_route h options w
             = (Inr (Jsonify [(''status'', JStr ''error''), (''output'', JStr (str_exn e))]), w2))"
  by (simp add: build_def generate_def apply_route_def run_configure_def)

text \<open>A host without \<^verbatim>\<open>cmake\<close> on the search path.\<close>

theorem build_launch_failure_escapes_witness:
  "fst (build no_cmake_host (example_world []))
     = Inr (Stream []
              (Some (Raise FileNotFoundError
                       (''[Errno 2] No such file or directory: '' @ [CHR 0x27] @ ''cmake''
                          @ [CHR 0x27]))))
   \<and> fst (apply_route no_cmake_host foo_options (example_world []))
     = Inr (Jsonify [(''status'', JStr ''error''),
                     (''output'',
                      JStr (''[Errno 2] No such file or directory: '' @ [CHR 0x27] @ ''cmake''
                              @ [CHR 0x27]))])"
proof -
  let ?w = "example_world []"
  let ?e = "Raise FileNotFoundError
    (''[Errno 2] No such file or directory: '' @ [CHR 0x27] @ ''cmake'' @ [CHR 0x27])"
  let ?w1 = "?w\<lparr>tree := tree ?w @ [([''tmp'', ''aimrt_build''], Dir)]\<rparr>"
  have b: "popen no_cmake_host [''cmake'', ''--build'', ''.'', ''--parallel'']
      [''tmp'', ''aimrt_build''] (tree ?w1) = Inl ?e"
    by (simp add: example_defs)
  obtain w1 where s: "save_cmake_options no_cmake_host foo_options ?w = (None, w1)"
    by (simp add: program_defs example_defs)
  have "\<exists>w2. get_build_dir w1 = Inr ([''tmp'', ''aimrt_build''], w2)"
    using s by (auto simp: program_defs example_defs)
  then obtain w2 where g: "get_build_dir w1 = Inr ([''tmp'', ''aimrt_build''], w2)"
    by blast
  obtain cmd where c: "cmake_cmd (get_project_root w2) foo_options = Inr cmd"
    by (simp add: cmake_cmd_def foo_options_def)
  have a: "popen no_cmake_host cmd [''tmp'', ''aimrt_build''] (tree w2) = Inl ?e"
    by (simp add: example_defs)
  note escapes = build_launch_failure_escapes [of ?w no_cmake_host foo_options]
  from escapes example_get_build_dir(1) [of "[]"] b
  have "build no_cmake_host ?w = (Inr (Stream [] (Some ?e)), ?w1)"
    by blast
  moreover from escapes s g c a
  have "apply_route no_cmake_host foo_options ?w
      = (Inr (Jsonify [(''status'', JStr ''error''), (''output'', JStr (str_exn ?e))]), w2)"
    by blast
  ultimately show ?thesis by simp
qed

subsection \<open>Claims about the merge of the scanner output with a snapshot\<close>

lemma scanned_entry_simp:
  "scanned_entry (name, description, default_value)
     = (name, JObj [(''description'', JStr description), (''value'', JBool default_value)])"
  by (simp add: scanned_entry_def)

lemma merged_entry_simp:
  "merged_entry saved (name, description, default_value)
     = (name, JObj [(''description'', JStr description),
                    (''value'', case snapshot_value saved name of
                                  Some v \<Rightarrow> v
                                | None \<Rightarrow> JBool default_value)])"
  by (simp add: merged_entry_def)

lemma entry_with_value_simp:
  "entry_with_value (name, description, default_value) v
     = (name, JObj [(''description'', JStr description), (''value'', v)])"
  by (simp add: entry_with_value_def)

lemma update_scanned:
  "\<exists>opts'. AList.update name (option_entry description default_value) (map scanned_entry opts)
            = map scanned_entry opts'"
proof (induction opts)
  case Nil
  have "AList.update name (option_entry description default_value) (map scanned_entry [])
      = map scanned_entry [(name, description, default_value)]"
    by (simp add: scanned_entry_simp option_entry_def)
  then show ?case by blast
next
  case (Cons opt opts)
  then obtain opts' where
    IH: "AList.update name (option_entry description default_value) (map scanned_entry opts)
           = map scanned_entry opts'"
    by blast
  obtain n d b where opt: "opt = (n, d, b)" by (cases opt)
  show ?case
  proof (cases "n = name")
    case True
    then have "AList.update name (option_entry description default_value)
                 (map scanned_entry (opt # opts))
        = map scanned_entry ((name, description, default_value) # opts)"
      by (simp add: opt scanned_entry_simp option_entry_def)
    then show ?thesis by blast
  next
    case False
    then have "AList.update name (option_entry description default_value)
                 (map scanned_entry (opt # opts))
        = map scanned_entry (opt # opts')"
      by (simp add: opt scanned_entry_simp IH)
    then show ?thesis by blast
  qed
qed

lemma collect_scanned:
  "\<exists>opts'. collect_options ms (map scanned_entry opts) = map scanned_entry opts'"
proof (induction ms arbitrary: opts)
  case Nil
  show ?case by auto
next
  case (Cons m ms)
  obtain name description token where m: "m = (name, description, token)" by (cases m)
  from update_scanned obtain opts1 where
    "AList.update name (option_entry description (token = ''ON'')) (map scanned_entry opts)
       = map scanned_entry opts1"
    by blast
  with Cons.IH [of opts1] show ?case
    by (simp add: m)
qed

lemma scan_options_scanned: "\<exists>opts. scan_options content = map scanned_entry opts"
  using collect_scanned [of "finditer content" "[]"] by (simp add: scan_options_def)

lemma read_cmake_options_scanned:
  "read_cmake_options h w = Inr scanned \<Longrightarrow> \<exists>opts. scanned = map scanned_entry opts"
  using scan_options_scanned by (auto simp: read_cmake_options_def split: sum.splits)

lemma scanned_with_defaults:
  "map scanned_entry opts = map2 entry_with_value opts (map (\<lambda>(n, d, b). JBool b) opts)"
  by (induction opts) (auto simp: scanned_entry_simp entry_with_value_simp)

lemma merged_with_values:
  "map (merged_entry saved) opts
     = map2 entry_with_value opts
         (map (\<lambda>(n, d, b). case snapshot_value saved n of Some v \<Rightarrow> v | None \<Rightarrow> JBool b) opts)"
  by (induction opts) (auto simp: merged_entry_simp entry_with_value_simp)


lemma merge_saved_frame:
  "merge_saved saved_options (map scanned_entry opts) = Inr shown \<Longrightarrow>
   \<exists>vals. length vals = length opts \<and> shown = map2 entry_with_value opts vals"
proof (induction opts arbitrary: shown)
  case Nil
  then show ?case by simp
next
  case (Cons opt opts)
  obtain n d b where opt: "opt = (n, d, b)" by (cases opt)
  let ?entry = "JObj [(''description'', JStr d), (''value'', JBool b)]"
  from Cons.prems obtain entry' rest where
    shown: "shown = (n, entry') # rest" and
    rest: "merge_saved saved_options (map scanned_entry opts) = Inr rest" and
    entry': "entry' = ?entry \<or> (\<exists>v. py_setitem ?entry ''value'' v = Inr entry')"
    by (auto simp: opt scanned_entry_simp split: sum.splits if_splits)
  from entry' obtain v where v: "entry' = JObj [(''description'', JStr d), (''value'', v)]"
    by auto
  from Cons.IH [OF rest] obtain vals where
    "length vals = length opts" "rest = map2 entry_with_value opts vals"
    by blast
  then have "length (v # vals) = length (opt # opts)
      \<and> shown = map2 entry_with_value (opt # opts) (v # vals)"
    by (simp add: shown v opt entry_with_value_simp)
  then show ?case by blast
qed



text \<open>
  C10. Whenever \<^verbatim>\<open>index\<close> returns its page, whatever the settings file holds, the entries
  shown are the entries of the scanner with nothing but the \<^verbatim>\<open>value\<close> field replaced: the
  same identifiers in the same order, each with the description that the scanner found
  and with some value. No description of a snapshot is shown.
\<close>

theorem index_keeps_descriptions:
  assumes "fst (index h w) = Inr r"
  shows "\<exists>opts vals status.
           read_cmake_options h w = Inr (map scanned_entry opts)
           \<and> length vals = length opts
           \<and> r = Render_template ''index.html''
                   [(''options'', JObj (map2 entry_with_value opts vals)),
                    (''build_status'', status)]"
proof -
  from assms obtain scanned saved_options shown build_dir w' where
    rd: "read_cmake_options h w = Inr scanned" and
    mg: "(if truthy saved_options then merge_saved saved_options scanned else Inr scanned)
           = Inr shown" and
    r: "r = Render_template ''index.html''
              [(''options'', JObj shown),
               (''build_status'',
                  JObj [(''exists'', JBool (os_path_exists build_dir w')),
                        (''path'', JStr (path_string build_dir))])]"
    by (auto simp: index_def split: sum.splits prod.splits)
  from read_cmake_options_scanned [OF rd] obtain opts where
    opts: "scanned = map scanned_entry opts"
    by blast
  have "\<exists>vals. length vals = length opts \<and> shown = map2 entry_with_value opts vals"
  proof (cases "truthy saved_options")
    case True
    with mg have "merge_saved saved_options (map scanned_entry opts) = Inr shown"
      by (simp add: opts)
    then show ?thesis by (rule merge_saved_frame)
  next
    case False
    with mg have "shown = map scanned_entry opts"
      by (simp add: opts)
    then have "length (map (\<lambda>(n, d, b). JBool b) opts) = length opts
        \<and> shown = map2 entry_with_value opts (map (\<lambda>(n, d, b). JBool b) opts)"
      by (simp add: scanned_with_defaults)
    then show ?thesis by blast
  qed
  with rd opts r show ?thesis by blast
qed

text \<open>
  The snapshot holds the description \<^verbatim>\<open>stale\<close> for \<^verbatim>\<open>A\<close>; the page shows the description \<^verbatim>\<open>a\<close>
  that the scanner found, with the value of the snapshot.
\<close>

theorem index_keeps_descriptions_witness:
  "load_saved_options example_host merged_world
     = Inr (JObj [(''A'', JObj [(''description'', JStr ''stale''), (''value'', JBool False)]),
                  (''GONE'', JObj [(''description'', JStr ''removed''), (''value'', JBool True)])])
   \<and> fst (index example_host merged_world)
     = Inr (Render_template ''index.html''
              [(''options'',
                  JObj [(''A'', JObj [(''description'', JStr ''a''), (''value'', JBool False)]),
                        (''B'', JObj [(''description'', JStr ''b''), (''value'', JBool False)])]),
               (''build_status'',
                  JObj [(''exists'', JBool True), (''path'', JStr ''tmp/aimrt_build'')])])"
proof -
  let ?r = "Render_template ''index.html''
              [(''options'',
                  JObj [(''A'', JObj [(''description'', JStr ''a''), (''value'', JBool False)]),
                        (''B'', JObj [(''description'', JStr ''b''), (''value'', JBool False)])]),
               (''build_status'',
                  JObj [(''exists'', JBool True), (''path'', JStr ''tmp/aimrt_build'')])]"
  have ld: "load_saved_options example_host merged_world
     = Inr (JObj [(''A'', JObj [(''description'', JStr ''stale''), (''value'', JBool False)]),
                  (''GONE'', JObj [(''description'', JStr ''removed''), (''value'', JBool True)])])"
    by code_simp
  have idx: "fst (index example_host merged_world) = Inr ?r"
    by code_simp
  from index_keeps_descriptions [OF idx] obtain opts where
    "\<exists>vals status.
       read_cmake_options example_host merged_world = Inr (map scanned_entry opts)
       \<and> length vals = length opts
       \<and> ?r = Render_template ''index.html''
               [(''options'', JObj (map2 entry_with_value opts vals)),
                (''build_status'', status)]"
    ..
  then obtain vals where
    "\<exists>status.
       read_cmake_options example_host merged_world = Inr (map scanned_entry opts)
       \<and> length vals = length opts
       \<and> ?r = Render_template ''index.html''
               [(''options'', JObj (map2 entry_with_value opts vals)),
                (''build_status'', status)]"
    ..
  then obtain status where
    "read_cmake_options example_host merged_world = Inr (map scanned_entry opts)
       \<and> length vals = length opts
       \<and> ?r = Render_template ''index.html''
               [(''options'', JObj (map2 entry_with_value opts vals)),
                (''build_status'', status)]"
    ..
  then have len: "length vals = length opts" and
    r: "?r = Render_template ''index.html''
               [(''options'', JObj (map2 entry_with_value opts vals)),
                (''build_status'', status)]"
    by simp_all
  from r have m: "map2 entry_with_value opts vals
      = [(''A'', JObj [(''description'', JStr ''a''), (''value'', JBool False)]),
         (''B'', JObj [(''description'', JStr ''b''), (''value'', JBool False)])]"
    by simp
  then have "length (map2 entry_with_value opts vals) = 2"
    by simp
  with len have "length opts = 2" and "length vals = 2"
    by simp_all
  then obtain o1 o2 v1 v2 where ov: "opts = [o1, o2]" "vals = [v1, v2]"
    by (auto simp: length_Suc_conv numeral_2_eq_2)
  obtain n1 d1 b1 n2 d2 b2 where o: "o1 = (n1, d1, b1)" "o2 = (n2, d2, b2)"
    by (cases o1, cases o2) auto
  from m have "map (\<lambda>(n, d, b). (n, d)) opts = [(''A'', ''a''), (''B'', ''b'')]"
    by (simp add: ov o entry_with_value_simp)
  with idx ld show ?thesis by simp
qed

end
